theory Spec2Isabelle
  imports Main
begin

section \<open>Taxonomy checker (taxonomy\_checker.py)\<close>

text \<open>
  The two taxonomies are JSON objects loaded once: a dictionary from a category
  (OS family, device group) to the list of its subcategories (OS types, device classes).
  A label that reaches the checker is \<open>None\<close> or a string.
\<close>

type_synonym taxonomy = "string \<rightharpoonup> string list"

record Taxonomy_checker =
  os_tax :: taxonomy
  dev_tax :: taxonomy

text \<open>
  \<^verbatim>\<open>if os_family in self.os_tax and (os_type is None or os_type in self.os_tax[os_family]): return True\<close>
  \<^verbatim>\<open>return False\<close>
  The keys of a taxonomy are strings, so \<open>None in self.os_tax\<close> is false.
\<close>

definition check_os ::
  "Taxonomy_checker \<Rightarrow> string option \<Rightarrow> string option \<Rightarrow> string option \<Rightarrow> bool" where
  "check_os self os_family os_type os_version =
     (case os_family of
        None \<Rightarrow> False
      | Some family \<Rightarrow>
          (case os_tax self family of
             None \<Rightarrow> False
           | Some types \<Rightarrow>
               (case os_type of None \<Rightarrow> True | Some t \<Rightarrow> t \<in> set types)))"

definition check_device ::
  "Taxonomy_checker \<Rightarrow> string option \<Rightarrow> string option \<Rightarrow> bool" where
  "check_device self group' class' =
     (case group' of
        None \<Rightarrow> False
      | Some g \<Rightarrow>
          (case dev_tax self g of
             None \<Rightarrow> False
           | Some classes \<Rightarrow>
               (case class' of None \<Rightarrow> True | Some c \<Rightarrow> c \<in> set classes)))"

section \<open>Classification record (annotation.py)\<close>

text \<open>
  The five attributes of an \<open>Annotation\<close>; the attribute \<open>_class\<close> of the source is
  the field \<open>u_class\<close> here. Each is \<open>None\<close> or a string.
\<close>

record Annotation =
  group :: "string option"
  u_class :: "string option"
  os_family :: "string option"
  os_type :: "string option"
  os_version :: "string option"

text \<open>
  A raw label handed to \<open>set_annotation\<close>: a missing value (\<open>None\<close>, NaN: what
  \<open>pandas.isna\<close> accepts), a string, or a value of another type.
\<close>

datatype label = NA | Str string | NonStr

text \<open>\<open>str.lower\<close>, on the ASCII letters (a \<open>char\<close> is a byte).\<close>

definition lower_char :: "char \<Rightarrow> char" where
  "lower_char c =
     (if 65 \<le> (of_char c :: nat) \<and> (of_char c :: nat) \<le> 90
      then char_of ((of_char c :: nat) + 32) else c)"

definition lower :: "string \<Rightarrow> string" where
  "lower s = map lower_char s"

definition validate_label :: "label \<Rightarrow> string option" where
  "validate_label l =
     (case l of
        NA \<Rightarrow> None
      | Str s \<Rightarrow> (if length s = 0 then None else Some (lower s))
      | NonStr \<Rightarrow> None)"

text \<open>
  \<open>set_annotation\<close>, under a configured taxonomy checker (\<open>_get_taxonomy\<close> raises
  \<open>RuntimeError\<close> otherwise, before any attribute is written). The two halves are
  written only when their check passes; the warnings are not modelled.
\<close>

definition set_annotation ::
  "Taxonomy_checker \<Rightarrow> label \<Rightarrow> label \<Rightarrow> label \<Rightarrow> label \<Rightarrow> label \<Rightarrow> Annotation \<Rightarrow> Annotation" where
  "set_annotation tax_checker group_label class_label os_family_label os_type_label
       os_version_label self =
     (let os_family' = validate_label os_family_label;
          os_type' = validate_label os_type_label;
          os_version' = validate_label os_version_label;
          group' = validate_label group_label;
          class' = validate_label class_label;
          self1 = (if check_os tax_checker os_family' os_type' os_version'
                   then self\<lparr>os_family := os_family', os_type := os_type',
                             os_version := os_version'\<rparr>
                   else self);
          self2 = (if check_device tax_checker group' class'
                   then self1\<lparr>group := group', u_class := class'\<rparr>
                   else self1)
      in self2)"

text \<open>\<open>__init__\<close>: all five attributes \<open>None\<close>, then \<open>set_annotation\<close>.\<close>

definition empty_annotation :: Annotation where
  "empty_annotation =
     \<lparr>group = None, u_class = None, os_family = None, os_type = None, os_version = None\<rparr>"

definition Annotation_init ::
  "Taxonomy_checker \<Rightarrow> label \<Rightarrow> label \<Rightarrow> label \<Rightarrow> label \<Rightarrow> label \<Rightarrow> Annotation" where
  "Annotation_init tax_checker group_label class_label os_family_label os_type_label
       os_version_label =
     set_annotation tax_checker group_label class_label os_family_label os_type_label
       os_version_label empty_annotation"

text \<open>
  \<open>export\<close> writes the five attributes under fixed keys; \<open>load\<close> reads them with
  \<open>data.get\<close> (a missing key reads as \<open>None\<close>) and calls the constructor. The
  dictionary is a record of the five values stored under the keys.
\<close>

record Annotation_dict =
  d_group :: label
  d_class :: label
  d_os_family :: label
  d_os_type :: label
  d_os_version :: label

definition label_of :: "string option \<Rightarrow> label" where
  "label_of v = (case v of None \<Rightarrow> NA | Some s \<Rightarrow> Str s)"

definition Annotation_export :: "Annotation \<Rightarrow> Annotation_dict" where
  "Annotation_export self =
     \<lparr>d_group = label_of (group self), d_class = label_of (u_class self),
      d_os_family = label_of (os_family self), d_os_type = label_of (os_type self),
      d_os_version = label_of (os_version self)\<rparr>"

definition Annotation_load :: "Taxonomy_checker \<Rightarrow> Annotation_dict \<Rightarrow> Annotation" where
  "Annotation_load tax_checker d =
     Annotation_init tax_checker (d_group d) (d_class d) (d_os_family d) (d_os_type d)
       (d_os_version d)"

section \<open>Entity ledger entry (ip.py)\<close>

text \<open>
  An address object of the \<open>ipaddress\<close> library: its version and its integer value.
  The library's printer \<open>str\<close> and parser \<open>ipaddress.ip_address\<close> are parameters of
  the functions that call them; the parser raises \<open>ValueError\<close> (\<open>None\<close> here).
\<close>

datatype ip_address = IPv4Address nat | IPv6Address nat

datatype error = ValueError | KeyError

text \<open>
  The dictionaries \<open>annotations\<close> and \<open>data\<close> keep their insertion order (the votes
  are read with \<open>.values()\<close>), so they are association lists. The audit lists hold:
  \<open>[attr_name, hand_value, final_value]\<close>; the count table of \<open>most_common\<close>;
  \<open>[tag, values]\<close>.
\<close>

type_synonym hand_miss_entry = "string \<times> string option \<times> string option"
type_synonym count_table = "(string \<times> nat) list"
type_synonym multi_device_entry = "string \<times> string list"

record 'd IP =
  ip_addr :: ip_address
  final_annotation :: Annotation
  annotations :: "(string \<times> Annotation) list"
  data :: "(string \<times> 'd) list"
  hand_miss :: "hand_miss_entry list"
  one_miss :: "count_table list"
  multi_device :: "multi_device_entry list"

definition IP_init :: "(string \<Rightarrow> ip_address option) \<Rightarrow> string \<Rightarrow> error + 'd IP" where
  "IP_init parse_ip s =
     (case parse_ip s of
        None \<Rightarrow> Inl ValueError
      | Some a \<Rightarrow>
          Inr \<lparr>ip_addr = a, final_annotation = empty_annotation, annotations = [], data = [],
               hand_miss = [], one_miss = [], multi_device = []\<rparr>)"

text \<open>
  \<open>__eq__\<close>: another entry is compared by address; any other object is compared
  with the address itself, and an address equals only an address of the same version
  and value.
\<close>

datatype 'd py_object = Entry "'d IP" | Address ip_address | Other_object

definition address_eq :: "ip_address \<Rightarrow> 'd py_object \<Rightarrow> bool" where
  "address_eq a other =
     (case other of Address b \<Rightarrow> a = b | Entry e \<Rightarrow> False | Other_object \<Rightarrow> False)"

definition IP_eq :: "'d IP \<Rightarrow> 'd py_object \<Rightarrow> bool" where
  "IP_eq self other =
     (case other of
        Entry e \<Rightarrow> ip_addr self = ip_addr e
      | _ \<Rightarrow> address_eq (ip_addr self) other)"

text \<open>Assignment to a dictionary key: an existing key keeps its place, a new one is last.\<close>

fun dict_set :: "'k \<Rightarrow> 'v \<Rightarrow> ('k \<times> 'v) list \<Rightarrow> ('k \<times> 'v) list" where
  "dict_set k v [] = [(k, v)]"
| "dict_set k v (p # ps) = (if fst p = k then (k, v) # ps else p # dict_set k v ps)"

definition add_annotation :: "string \<Rightarrow> Annotation \<Rightarrow> 'd IP \<Rightarrow> 'd IP" where
  "add_annotation annotator_name annotation self =
     self\<lparr>annotations := dict_set annotator_name annotation (annotations self)\<rparr>"

definition add_data :: "string \<Rightarrow> 'd \<Rightarrow> 'd IP \<Rightarrow> 'd IP" where
  "add_data annotator_name x self = self\<lparr>data := dict_set annotator_name x (data self)\<rparr>"

subsection \<open>merge\_annotation\<close>

text \<open>
  \<open>Counter(tags)\<close> counts each value, keyed in order of first occurrence;
  \<open>most_common()\<close> sorts the table by count, largest first, and the sort is stable.
\<close>

fun counter_add :: "'a \<Rightarrow> ('a \<times> nat) list \<Rightarrow> ('a \<times> nat) list" where
  "counter_add x [] = [(x, 1)]"
| "counter_add x (p # ps) =
     (if fst p = x then (x, snd p + 1) # ps else p # counter_add x ps)"

definition Counter :: "'a list \<Rightarrow> ('a \<times> nat) list" where
  "Counter xs = foldl (\<lambda>c x. counter_add x c) [] xs"

definition most_common :: "('a \<times> nat) list \<Rightarrow> ('a \<times> nat) list" where
  "most_common c = sort_key (\<lambda>p. - int (snd p)) c"

text \<open>\<open>[tag for tag in tags if tag]\<close>: \<open>None\<close> and the empty string are dropped.\<close>

definition truthy :: "string option \<Rightarrow> bool" where
  "truthy v = (case v of None \<Rightarrow> False | Some s \<Rightarrow> s \<noteq> [])"

definition truthy_tags :: "string option list \<Rightarrow> string list" where
  "truthy_tags tags = map the (filter truthy tags)"

text \<open>
  The method returns the merged tag (the empty string when there is none) and appends
  to the audit lists of the entry; the model returns both.
\<close>

definition merge_annotation ::
  "string option list \<Rightarrow> int \<Rightarrow> bool \<Rightarrow> 'd IP \<Rightarrow> string \<times> 'd IP" where
  "merge_annotation tags min_annotators_count nat_check self =
     (let tags' = truthy_tags tags;
          count = most_common (Counter tags')
      in if length count = 0 then ('''', self)
         else if length count = 1 \<and> min_annotators_count \<le> int (snd (count ! 0))
           then (fst (count ! 0), self)
         else if length count = 2 \<and> min_annotators_count \<le> int (snd (count ! 0))
                 \<and> snd (last count) = 1
           then ('''', self\<lparr>one_miss := one_miss self @ [count]\<rparr>)
         else if nat_check \<and> 1 < length count
           then ('''', self\<lparr>multi_device :=
                   multi_device self @ [(''IP:merge_annotation_fail'', tags')]\<rparr>)
         else ('''', self))"

subsection \<open>perform\_annotation\<close>

definition getattr :: "Annotation \<Rightarrow> string \<Rightarrow> string option" where
  "getattr a attr_name =
     (if attr_name = ''group'' then group a
      else if attr_name = ''_class'' then u_class a
      else if attr_name = ''os_family'' then os_family a
      else if attr_name = ''os_type'' then os_type a
      else if attr_name = ''os_version'' then os_version a
      else None)"

definition setattr :: "Annotation \<Rightarrow> string \<Rightarrow> string option \<Rightarrow> Annotation" where
  "setattr a attr_name v =
     (if attr_name = ''group'' then a\<lparr>group := v\<rparr>
      else if attr_name = ''_class'' then a\<lparr>u_class := v\<rparr>
      else if attr_name = ''os_family'' then a\<lparr>os_family := v\<rparr>
      else if attr_name = ''os_type'' then a\<lparr>os_type := v\<rparr>
      else if attr_name = ''os_version'' then a\<lparr>os_version := v\<rparr>
      else a)"

text \<open>The body of the loop over the attribute names, for the hand annotator's record.\<close>

definition hand_step :: "Annotation \<Rightarrow> 'd IP \<Rightarrow> string \<Rightarrow> 'd IP" where
  "hand_step hand self attr_name =
     (let hand_value = getattr hand attr_name;
          final_value = getattr (final_annotation self) attr_name
      in if truthy hand_value \<and> hand_value \<noteq> final_value
         then self\<lparr>hand_miss := hand_miss self @ [(attr_name, hand_value, final_value)],
                   final_annotation := setattr (final_annotation self) attr_name hand_value\<rparr>
         else self)"

definition perform_annotation :: "Taxonomy_checker \<Rightarrow> int \<Rightarrow> 'd IP \<Rightarrow> 'd IP" where
  "perform_annotation tax_checker min_annotators_count self =
     (let vals = map snd (annotations self);
          (group', s1) = merge_annotation (map group vals) min_annotators_count True self;
          (class', s2) = merge_annotation (map u_class vals) min_annotators_count False s1;
          (os_family', s3) = merge_annotation (map os_family vals) min_annotators_count True s2;
          (os_type', s4) = merge_annotation (map os_type vals) min_annotators_count True s3;
          (os_version', s5) =
             merge_annotation (map os_version vals) min_annotators_count False s4;
          s6 = s5\<lparr>final_annotation :=
                   set_annotation tax_checker (Str group') (Str class') (Str os_family')
                     (Str os_type') (Str os_version') (final_annotation s5)\<rparr>
      in case map_of (annotations s6) ''hand_annotator'' of
           None \<Rightarrow> s6
         | Some hand \<Rightarrow>
             foldl (hand_step hand) s6
               [''group'', ''_class'', ''os_family'', ''os_type'', ''os_version''])"

subsection \<open>export and load\<close>

text \<open>
  The exported dictionary, by key. \<open>load\<close> reads \<open>ip_addr\<close> and
  \<open>final_annotation\<close> with \<open>data[...]\<close> (a missing key raises \<open>KeyError\<close>) and the
  other keys with \<open>data.get\<close> and an empty default (the empty list; for
  \<open>multi_device\<close> the source writes the empty dictionary, which is the empty list here).
  The dictionaries are passed as they are, with no JSON text in between.
\<close>

record 'd IP_dict =
  k_ip_addr :: "string option"
  k_final_annotation :: "Annotation_dict option"
  k_annotations :: "(string \<times> Annotation_dict) list option"
  k_data :: "(string \<times> 'd) list option"
  k_hand_miss :: "hand_miss_entry list option"
  k_one_miss :: "count_table list option"
  k_multi_device :: "multi_device_entry list option"

definition IP_export :: "(ip_address \<Rightarrow> string) \<Rightarrow> 'd IP \<Rightarrow> 'd IP_dict" where
  "IP_export str_ip self =
     \<lparr>k_ip_addr = Some (str_ip (ip_addr self)),
      k_final_annotation = Some (Annotation_export (final_annotation self)),
      k_annotations = Some (map (\<lambda>(key, v). (key, Annotation_export v)) (annotations self)),
      k_data = Some (data self),
      k_hand_miss = Some (hand_miss self),
      k_one_miss = Some (one_miss self),
      k_multi_device = Some (multi_device self)\<rparr>"

definition get_default :: "'a list option \<Rightarrow> 'a list" where
  "get_default v = (case v of None \<Rightarrow> [] | Some xs \<Rightarrow> xs)"

definition IP_load ::
  "(string \<Rightarrow> ip_address option) \<Rightarrow> Taxonomy_checker \<Rightarrow> 'd IP_dict \<Rightarrow> error + 'd IP" where
  "IP_load parse_ip tax_checker d =
     (case k_ip_addr d of
        None \<Rightarrow> Inl KeyError
      | Some s \<Rightarrow>
          (case IP_init parse_ip s of
             Inl e \<Rightarrow> Inl e
           | Inr loaded_ip \<Rightarrow>
               (case k_final_annotation d of
                  None \<Rightarrow> Inl KeyError
                | Some fa \<Rightarrow>
                    Inr (loaded_ip
                      \<lparr>final_annotation := Annotation_load tax_checker fa,
                       annotations :=
                         map (\<lambda>(name, anno). (name, Annotation_load tax_checker anno))
                           (get_default (k_annotations d)),
                       data := get_default (k_data d),
                       hand_miss := get_default (k_hand_miss d),
                       one_miss := get_default (k_one_miss d),
                       multi_device := get_default (k_multi_device d)\<rparr>))))"

section \<open>Annotator orchestrator (daf.py, process\_in\_memory)\<close>

text \<open>
  An annotator module: its \<open>__name__\<close> and its \<open>annotate\<close>, which writes to the
  entries it is given and may raise; the model returns the entries as it left them and
  the trace of the exception, if one was raised.
\<close>

record 'd annotator_module =
  u_name :: string
  annotate :: "'d IP list \<Rightarrow> 'd IP list \<times> string option"

text \<open>
  With \<open>config["daf"]["threads"]\<close> every module runs in \<open>start_thread\<close>, whose
  \<open>except Exception\<close> appends \<open>[module.__name__, traceback.format_exc()]\<close> to
  \<open>thread_errors\<close>; all threads are joined before the errors are read. The threads are
  taken in the order they are started, each to its end.
\<close>

fun run_threads ::
  "'d annotator_module list \<Rightarrow> 'd IP list \<Rightarrow> (string \<times> string) list
     \<Rightarrow> 'd IP list \<times> (string \<times> string) list" where
  "run_threads [] ips thread_errors = (ips, thread_errors)"
| "run_threads (m # ms) ips thread_errors =
     (case annotate m ips of
        (ips', Some trace) \<Rightarrow> run_threads ms ips' (thread_errors @ [(u_name m, trace)])
      | (ips', None) \<Rightarrow> run_threads ms ips' thread_errors)"

text \<open>
  Without threads the loop calls \<open>module.annotate\<close> itself, outside any \<open>try\<close>: an
  exception leaves the loop and the function.
\<close>

fun run_sequential ::
  "'d annotator_module list \<Rightarrow> 'd IP list \<Rightarrow> 'd IP list \<times> string option" where
  "run_sequential [] ips = (ips, None)"
| "run_sequential (m # ms) ips =
     (case annotate m ips of
        (ips', Some trace) \<Rightarrow> (ips', Some trace)
      | (ips', None) \<Rightarrow> run_sequential ms ips')"

text \<open>
  How a run ends: the entries as they stand, the module errors written to the log
  (\<open>Module: name, trace\<close>), and the exception that left the function, if any: the
  \<open>RuntimeError\<close> raised after the log, or the annotator's own exception. The exports
  and statistics that follow the fusion in the source are left out.
\<close>

datatype raised = RuntimeError string | Annotator_exception string

record 'd run =
  ledger :: "'d IP list"
  logged_errors :: "(string \<times> string) list"
  exception :: "raised option"

definition process_in_memory ::
  "bool \<Rightarrow> Taxonomy_checker \<Rightarrow> int \<Rightarrow> 'd annotator_module list \<Rightarrow> 'd IP list \<Rightarrow> 'd run" where
  "process_in_memory threads tax_checker min_annotators_count annotators ip_addresses =
     (if threads then
        (case run_threads annotators ip_addresses [] of
           (ips, thread_errors) \<Rightarrow>
             if thread_errors \<noteq> []
             then \<lparr>ledger = ips, logged_errors = thread_errors,
                   exception =
                     Some (RuntimeError ''Some modules failed. Exiting annotation process.'')\<rparr>
             else \<lparr>ledger = map (perform_annotation tax_checker min_annotators_count) ips,
                   logged_errors = [], exception = None\<rparr>)
      else
        (case run_sequential annotators ip_addresses of
           (ips, Some trace) \<Rightarrow>
             \<lparr>ledger = ips, logged_errors = [], exception = Some (Annotator_exception trace)\<rparr>
         | (ips, None) \<Rightarrow>
             \<lparr>ledger = map (perform_annotation tax_checker min_annotators_count) ips,
              logged_errors = [], exception = None\<rparr>))"

section \<open>Notions used in the statements\<close>

text \<open>
  The two blocks of \<open>perform_annotation\<close> on their own: \<open>fuse\<close> is the entry after the
  five merges and \<open>set_annotation\<close> (the block \<open># Merge annotations\<close>), and
  \<open>hand_override\<close> is the block \<open># If hand annotator is present, use its values\<close>.
  \<open>perform_annotation\<close> is shown below to be the second after the first.
\<close>

definition fuse :: "Taxonomy_checker \<Rightarrow> int \<Rightarrow> 'd IP \<Rightarrow> 'd IP" where
  "fuse tax_checker min_annotators_count self =
     (let vals = map snd (annotations self);
          (group', s1) = merge_annotation (map group vals) min_annotators_count True self;
          (class', s2) = merge_annotation (map u_class vals) min_annotators_count False s1;
          (os_family', s3) = merge_annotation (map os_family vals) min_annotators_count True s2;
          (os_type', s4) = merge_annotation (map os_type vals) min_annotators_count True s3;
          (os_version', s5) =
             merge_annotation (map os_version vals) min_annotators_count False s4
      in s5\<lparr>final_annotation :=
               set_annotation tax_checker (Str group') (Str class') (Str os_family')
                 (Str os_type') (Str os_version') (final_annotation s5)\<rparr>)"

definition hand_override :: "'d IP \<Rightarrow> 'd IP" where
  "hand_override self =
     (case map_of (annotations self) ''hand_annotator'' of
        None \<Rightarrow> self
      | Some hand \<Rightarrow>
          foldl (hand_step hand) self
            [''group'', ''_class'', ''os_family'', ''os_type'', ''os_version''])"

text \<open>
  What one merge returns and appends, read off the branches of \<open>merge_annotation\<close>:
  the returned tag, the entries added to \<open>one_miss\<close> and those added to
  \<open>multi_device\<close>.
\<close>

definition merged_tag :: "string option list \<Rightarrow> int \<Rightarrow> string" where
  "merged_tag tags m =
     (let count = most_common (Counter (truthy_tags tags))
      in if length count = 1 \<and> m \<le> int (snd (count ! 0)) then fst (count ! 0) else '''')"

definition one_miss_entries :: "string option list \<Rightarrow> int \<Rightarrow> count_table list" where
  "one_miss_entries tags m =
     (let count = most_common (Counter (truthy_tags tags))
      in if length count = 2 \<and> m \<le> int (snd (count ! 0)) \<and> snd (last count) = 1
         then [count] else [])"

definition multi_device_entries ::
  "string option list \<Rightarrow> int \<Rightarrow> bool \<Rightarrow> multi_device_entry list" where
  "multi_device_entries tags m nat_check =
     (let count = most_common (Counter (truthy_tags tags))
      in if length count = 2 \<and> m \<le> int (snd (count ! 0)) \<and> snd (last count) = 1 then []
         else if nat_check \<and> 1 < length count
         then [(''IP:merge_annotation_fail'', truthy_tags tags)]
         else [])"

text \<open>
  The hand-override rule for one attribute: the value the final record holds afterwards,
  and the entries added to \<open>hand_miss\<close>, from the hand value \<open>h\<close> and the value \<open>f\<close> the
  final record held after fusion.
\<close>

definition override_value :: "string option \<Rightarrow> string option \<Rightarrow> string option" where
  "override_value h f = (if truthy h \<and> h \<noteq> f then h else f)"

definition miss_entry :: "string \<Rightarrow> string option \<Rightarrow> string option \<Rightarrow> hand_miss_entry list" where
  "miss_entry attr_name h f = (if truthy h \<and> h \<noteq> f then [(attr_name, h, f)] else [])"

text \<open>The final record after the hand-override rule has been applied to each attribute.\<close>

definition override_record :: "Annotation \<Rightarrow> Annotation \<Rightarrow> Annotation" where
  "override_record hand f =
     \<lparr>group = override_value (group hand) (group f),
      u_class = override_value (u_class hand) (u_class f),
      os_family = override_value (os_family hand) (os_family f),
      os_type = override_value (os_type hand) (os_type f),
      os_version = override_value (os_version hand) (os_version f)\<rparr>"

text \<open>
  The dependency between the attributes of a record: a class needs a group, an OS type or
  version needs an OS family. A value is present when it is neither \<open>None\<close> nor empty.
\<close>

definition dependency_invariant :: "Annotation \<Rightarrow> bool" where
  "dependency_invariant a =
     ((truthy (u_class a) \<longrightarrow> truthy (group a)) \<and>
      (truthy (os_type a) \<or> truthy (os_version a) \<longrightarrow> truthy (os_family a)))"

text \<open>
  A record as the constructor leaves it: every attribute \<open>None\<close> or a non-empty
  lower-case string, and each half either passes its taxonomy check or is all \<open>None\<close>.
\<close>

definition normalized :: "string option \<Rightarrow> bool" where
  "normalized v = (case v of None \<Rightarrow> True | Some s \<Rightarrow> s \<noteq> [] \<and> lower s = s)"

definition valid_annotation :: "Taxonomy_checker \<Rightarrow> Annotation \<Rightarrow> bool" where
  "valid_annotation tax_checker a =
     (normalized (group a) \<and> normalized (u_class a) \<and> normalized (os_family a) \<and>
      normalized (os_type a) \<and> normalized (os_version a) \<and>
      (check_os tax_checker (os_family a) (os_type a) (os_version a) \<or>
       (os_family a = None \<and> os_type a = None \<and> os_version a = None)) \<and>
      (check_device tax_checker (group a) (u_class a) \<or>
       (group a = None \<and> u_class a = None)))"

section \<open>Concrete inputs\<close>

definition tax0 :: Taxonomy_checker where
  "tax0 =
     \<lparr>os_tax = [''linux'' \<mapsto> [''ubuntu''], ''windows'' \<mapsto> []],
      dev_tax = [''server'' \<mapsto> [''web''], ''workstation'' \<mapsto> [''laptop''],
                 ''mobile'' \<mapsto> [''laptop'']]\<rparr>"

definition entry0 :: "unit IP" where
  "entry0 =
     \<lparr>ip_addr = IPv4Address 167772161, final_annotation = empty_annotation, annotations = [],
      data = [], hand_miss = [], one_miss = [], multi_device = []\<rparr>"

definition server_web :: Annotation where
  "server_web =
     \<lparr>group = Some ''server'', u_class = Some ''web'', os_family = None, os_type = None,
      os_version = None\<rparr>"

definition workstation_any :: Annotation where
  "workstation_any =
     \<lparr>group = Some ''workstation'', u_class = None, os_family = None, os_type = None,
      os_version = None\<rparr>"

definition linux_ubuntu :: Annotation where
  "linux_ubuntu =
     \<lparr>group = None, u_class = None, os_family = Some ''linux'', os_type = Some ''ubuntu'',
      os_version = None\<rparr>"

definition windows_any :: Annotation where
  "windows_any =
     \<lparr>group = None, u_class = None, os_family = Some ''windows'', os_type = None,
      os_version = None\<rparr>"

definition workstation_laptop :: Annotation where
  "workstation_laptop =
     \<lparr>group = Some ''workstation'', u_class = Some ''laptop'', os_family = None,
      os_type = None, os_version = None\<rparr>"

definition mobile_laptop :: Annotation where
  "mobile_laptop =
     \<lparr>group = Some ''mobile'', u_class = Some ''laptop'', os_family = None, os_type = None,
      os_version = None\<rparr>"

text \<open>
  Entries with candidates: one annotator and the hand annotator agreeing on the device;
  the same entry without the hand annotator; an entry whose final record came from an
  earlier fusion of two agreeing annotators, to which a dissenting hand record was added
  afterwards; and two annotators that agree on the class and not on the group.
\<close>

definition entry_voted :: "unit IP" where
  "entry_voted =
     entry0\<lparr>annotations := [(''mac_annotator'', server_web), (''hand_annotator'', server_web)]\<rparr>"

definition entry_no_hand :: "unit IP" where
  "entry_no_hand = entry0\<lparr>annotations := [(''mac_annotator'', server_web)]\<rparr>"

definition entry_stale :: "unit IP" where
  "entry_stale =
     entry0\<lparr>final_annotation := linux_ubuntu,
            annotations := [(''sni_annotator'', linux_ubuntu),
                            (''useragent_annotator'', linux_ubuntu),
                            (''hand_annotator'', windows_any)]\<rparr>"

definition entry_disputed :: "unit IP" where
  "entry_disputed =
     entry0\<lparr>annotations := [(''mac_annotator'', workstation_laptop),
                            (''hostname_annotator'', mobile_laptop)]\<rparr>"

text \<open>
  The calls of a re-fusion: two annotators add the same record, the entry is fused, the
  hand annotator's record is added, the entry is fused again.
\<close>

definition entry_fused_once :: "unit IP" where
  "entry_fused_once =
     perform_annotation tax0 2
       (add_annotation ''sni_annotator'' server_web
         (add_annotation ''mac_annotator'' server_web entry0))"

definition entry_fused_twice :: "unit IP" where
  "entry_fused_twice =
     perform_annotation tax0 2
       (add_annotation ''hand_annotator'' workstation_any entry_fused_once)"

text \<open>A printer and a parser that agree on the address of \<open>entry0\<close>.\<close>

definition str0 :: "ip_address \<Rightarrow> string" where
  "str0 a = ''10.0.0.1''"

definition parse0 :: "string \<Rightarrow> ip_address option" where
  "parse0 s = (if s = ''10.0.0.1'' then Some (IPv4Address 167772161) else None)"

text \<open>An annotator that raises at once, and one that adds a candidate to every entry.\<close>

definition failing_annotator :: "unit annotator_module" where
  "failing_annotator =
     \<lparr>u_name = ''x_annotator'', annotate = (\<lambda>ips. (ips, Some ''Traceback: x failed''))\<rparr>"

definition working_annotator :: "unit annotator_module" where
  "working_annotator =
     \<lparr>u_name = ''y_annotator'',
      annotate = (\<lambda>ips. (map (add_annotation ''y_annotator'' server_web) ips, None))\<rparr>"

section \<open>The taxonomy checks\<close>

text \<open>
  C3, as the code has it. \<open>check_os\<close> holds exactly when the family is present, is a key
  of the OS taxonomy, and the type is absent or listed under that family; the version
  never matters. \<open>check_device\<close> obeys the same rule for group and class. An absent
  family (or group) is rejected, not accepted.
\<close>

theorem check_os_check_device_rule:
  "check_os tc family otype version =
     (\<exists>f types. family = Some f \<and> os_tax tc f = Some types \<and>
        (otype = None \<or> (\<exists>t. otype = Some t \<and> t \<in> set types)))
   \<and> check_os tc family otype version = check_os tc family otype version'
   \<and> check_device tc grp cls =
     (\<exists>g classes. grp = Some g \<and> dev_tax tc g = Some classes \<and>
        (cls = None \<or> (\<exists>c. cls = Some c \<and> c \<in> set classes)))"
  by (auto simp: check_os_def check_device_def split: option.splits)

text \<open>
  C3 as stated fails: with every label absent the claim makes both checks true, and the
  code returns \<open>False\<close> for both.
\<close>

theorem check_os_absent_family_counterexample:
  "\<not> check_os tax0 None None None \<and> \<not> check_device tax0 None None"
  by (simp add: check_os_def check_device_def)

section \<open>Equality of ledger entries\<close>

text \<open>
  C10. \<open>__eq__\<close> on two entries compares the addresses and nothing else: replacing the
  final record, the candidates, the evidence and the three audit lists of either entry
  does not change the result. Against a value that is not an entry the result is the
  comparison of the address with that value: equality of addresses for an address, false
  for anything else.
\<close>

theorem IP_eq_by_address:
  "IP_eq a (Entry b) = (ip_addr a = ip_addr b)
   \<and> IP_eq (a\<lparr>final_annotation := fa, annotations := an, data := da, hand_miss := hm,
               one_miss := om, multi_device := md\<rparr>)
        (Entry (b\<lparr>final_annotation := fa', annotations := an', data := da', hand_miss := hm',
                   one_miss := om', multi_device := md'\<rparr>))
      = (ip_addr a = ip_addr b)
   \<and> IP_eq a (Address x) = address_eq (ip_addr a) (Address x)
   \<and> address_eq (ip_addr a) (Address x :: 'a py_object) = (ip_addr a = x)
   \<and> IP_eq a Other_object = address_eq (ip_addr a) (Other_object :: 'a py_object)
   \<and> \<not> IP_eq a Other_object"
  by (simp add: IP_eq_def address_eq_def)

section \<open>The count table of a merge\<close>

text \<open>
  \<open>Counter\<close> has one row per distinct value, holding the number of its occurrences, and
  \<open>most_common\<close> permutes the rows into descending order of count.
\<close>
lemma counter_add_keys: "fst ` set (counter_add x c) = insert x (fst ` set c)"
  by (induction c) auto

lemma counter_add_distinct: "distinct (map fst c) \<Longrightarrow> distinct (map fst (counter_add x c))"
proof (induction c)
  case Nil
  then show ?case by simp
next
  case (Cons p ps)
  have "fst ` set (counter_add x ps) = insert x (fst ` set ps)" by (rule counter_add_keys)
  with Cons show ?case by auto
qed

lemma counter_add_map_of:
  "map_of (counter_add x c) y =
     (if y = x then Some (case map_of c x of None \<Rightarrow> 1 | Some n \<Rightarrow> n + 1) else map_of c y)"
  by (induction c) auto

lemma counter_fold_keys:
  "fst ` set (foldl (\<lambda>c x. counter_add x c) c xs) = fst ` set c \<union> set xs"
  by (induction xs arbitrary: c) (auto simp: counter_add_keys)

lemma counter_fold_distinct:
  "distinct (map fst c) \<Longrightarrow> distinct (map fst (foldl (\<lambda>c x. counter_add x c) c xs))"
  by (induction xs arbitrary: c) (auto simp: counter_add_distinct)

lemma counter_fold_map_of:
  "map_of (foldl (\<lambda>c x. counter_add x c) c xs) y =
     (if y \<in> set xs then Some ((case map_of c y of None \<Rightarrow> 0 | Some n \<Rightarrow> n) + count_list xs y)
      else map_of c y)"
  by (induction xs arbitrary: c) (auto simp: counter_add_map_of split: option.splits)

lemma Counter_keys: "fst ` set (Counter xs) = set xs"
  by (simp add: Counter_def counter_fold_keys)

lemma Counter_distinct: "distinct (map fst (Counter xs))"
  by (simp add: Counter_def counter_fold_distinct)

lemma Counter_map_of:
  "map_of (Counter xs) y = (if y \<in> set xs then Some (count_list xs y) else None)"
  by (simp add: Counter_def counter_fold_map_of)

lemma Counter_set: "set (Counter xs) = (\<lambda>y. (y, count_list xs y)) ` set xs"
proof (rule set_eqI)
  fix p :: "'a \<times> nat"
  obtain y n where p: "p = (y, n)" by (cases p)
  have "(y, n) \<in> set (Counter xs) \<longleftrightarrow> map_of (Counter xs) y = Some n"
    using Counter_distinct[of xs] by simp
  also have "\<dots> \<longleftrightarrow> y \<in> set xs \<and> n = count_list xs y"
    by (auto simp: Counter_map_of)
  finally show "p \<in> set (Counter xs) \<longleftrightarrow> p \<in> (\<lambda>y. (y, count_list xs y)) ` set xs"
    using p by auto
qed

lemma Counter_length: "length (Counter xs) = card (set xs)"
proof -
  have "length (Counter xs) = length (map fst (Counter xs))" by simp
  also have "\<dots> = card (set (map fst (Counter xs)))"
    using Counter_distinct[of xs] by (simp only: distinct_card)
  also have "\<dots> = card (set xs)" by (simp add: Counter_keys)
  finally show ?thesis .
qed

lemma most_common_set: "set (most_common c) = set c"
  by (simp add: most_common_def)

lemma most_common_length: "length (most_common c) = length c"
  by (simp add: most_common_def)

lemma most_common_sorted: "sorted (map (\<lambda>p. - int (snd p)) (most_common c))"
  by (simp add: most_common_def)

lemma most_common_distinct: "distinct (map fst (most_common c)) = distinct (map fst c)"
  by (simp add: most_common_def distinct_map)

lemma two_element_list:
  assumes "length T = 2" and "set T = {p, q}" and "p \<noteq> q"
  shows "T = [p, q] \<or> T = [q, p]"
proof -
  from assms(1) obtain x y where T: "T = [x, y]"
    by (cases T; cases "tl T") auto
  with assms(2,3) show ?thesis by (auto simp: doubleton_eq_iff)
qed

lemma table_length: "length (most_common (Counter ts)) = card (set ts)"
  by (simp add: most_common_length Counter_length)

lemma table_set: "set (most_common (Counter ts)) = (\<lambda>y. (y, count_list ts y)) ` set ts"
  by (simp add: most_common_set Counter_set)

lemma table_empty: "set ts = {} \<Longrightarrow> most_common (Counter ts) = []"
  using table_length[of ts] by simp

lemma table_single:
  assumes "set ts = {a}"
  shows "most_common (Counter ts) = [(a, count_list ts a)]"
proof -
  have "length (most_common (Counter ts)) = 1"
    using assms by (simp add: table_length)
  then obtain p where T: "most_common (Counter ts) = [p]"
    by (cases "most_common (Counter ts)") auto
  have "set (most_common (Counter ts)) = {(a, count_list ts a)}"
    using assms by (simp add: table_set)
  with T show ?thesis by simp
qed

lemma table_pair:
  assumes "set ts = {a, b}" and "a \<noteq> b" and "count_list ts b \<le> count_list ts a"
  shows "length (most_common (Counter ts)) = 2"
    and "snd (most_common (Counter ts) ! 0) = count_list ts a"
    and "snd (last (most_common (Counter ts))) = count_list ts b"
    and "set (most_common (Counter ts)) = {(a, count_list ts a), (b, count_list ts b)}"
proof -
  let ?T = "most_common (Counter ts)"
  show len: "length ?T = 2"
    using assms(1,2) by (simp add: table_length)
  show st: "set ?T = {(a, count_list ts a), (b, count_list ts b)}"
    using assms(1) by (simp add: table_set)
  have "(a, count_list ts a) \<noteq> (b, count_list ts b)"
    using assms(2) by simp
  with len st have cases: "?T = [(a, count_list ts a), (b, count_list ts b)]
      \<or> ?T = [(b, count_list ts b), (a, count_list ts a)]"
    by (rule two_element_list)
  have srt: "sorted (map (\<lambda>p. - int (snd p)) ?T)"
    by (rule most_common_sorted)
  from cases srt assms(3)
  show "snd (?T ! 0) = count_list ts a" by auto
  from cases srt assms(3)
  show "snd (last ?T) = count_list ts b" by auto
qed

lemma merge_zero:
  "set (truthy_tags tags) = {} \<Longrightarrow> merge_annotation tags m nat_check self = ('''', self)"
  by (simp add: merge_annotation_def Let_def table_empty)

lemma merge_single:
  "set (truthy_tags tags) = {a} \<Longrightarrow>
   merge_annotation tags m nat_check self =
     (if m \<le> int (count_list (truthy_tags tags) a) then (a, self) else ('''', self))"
  by (simp add: merge_annotation_def Let_def table_single)

lemma merge_pair:
  assumes "set (truthy_tags tags) = {a, b}" and "a \<noteq> b"
    and "count_list (truthy_tags tags) b \<le> count_list (truthy_tags tags) a"
  shows "merge_annotation tags m nat_check self =
     (if m \<le> int (count_list (truthy_tags tags) a) \<and> count_list (truthy_tags tags) b = 1
      then ('''', self\<lparr>one_miss := one_miss self @ [most_common (Counter (truthy_tags tags))]\<rparr>)
      else if nat_check
      then ('''', self\<lparr>multi_device := multi_device self @
              [(''IP:merge_annotation_fail'', truthy_tags tags)]\<rparr>)
      else ('''', self))"
proof -
  let ?T = "most_common (Counter (truthy_tags tags))"
  note tp = table_pair(1,2,3)[OF assms]
  from tp(1) have ne: "?T \<noteq> []" "length ?T \<noteq> Suc 0" "Suc 0 < length ?T"
    by auto
  show ?thesis
    by (simp add: merge_annotation_def Let_def ne tp)
qed

lemma merge_many:
  assumes "2 < card (set (truthy_tags tags))"
  shows "merge_annotation tags m nat_check self =
     (if nat_check
      then ('''', self\<lparr>multi_device := multi_device self @
              [(''IP:merge_annotation_fail'', truthy_tags tags)]\<rparr>)
      else ('''', self))"
proof -
  let ?T = "most_common (Counter (truthy_tags tags))"
  from assms have len: "2 < length ?T" by (simp add: table_length)
  then have ne: "?T \<noteq> []" "length ?T \<noteq> Suc 0" "length ?T \<noteq> 2" "Suc 0 < length ?T"
    by auto
  show ?thesis
    by (simp add: merge_annotation_def Let_def ne)
qed

section \<open>What a merge and the two blocks of perform\_annotation do\<close>

lemma merge_annotation_eq:
  "merge_annotation tags m nat_check self =
     (merged_tag tags m,
      self\<lparr>one_miss := one_miss self @ one_miss_entries tags m,
           multi_device := multi_device self @ multi_device_entries tags m nat_check\<rparr>)"
  by (simp add: merge_annotation_def merged_tag_def one_miss_entries_def
      multi_device_entries_def Let_def)

lemma multi_device_entries_no_check: "multi_device_entries tags m False = []"
  by (simp add: multi_device_entries_def Let_def)

lemma fuse_eq:
  "fuse tc m self =
     self\<lparr>one_miss := one_miss self
             @ one_miss_entries (map group (map snd (annotations self))) m
             @ one_miss_entries (map u_class (map snd (annotations self))) m
             @ one_miss_entries (map os_family (map snd (annotations self))) m
             @ one_miss_entries (map os_type (map snd (annotations self))) m
             @ one_miss_entries (map os_version (map snd (annotations self))) m,
          multi_device := multi_device self
             @ multi_device_entries (map group (map snd (annotations self))) m True
             @ multi_device_entries (map os_family (map snd (annotations self))) m True
             @ multi_device_entries (map os_type (map snd (annotations self))) m True,
          final_annotation :=
            set_annotation tc
              (Str (merged_tag (map group (map snd (annotations self))) m))
              (Str (merged_tag (map u_class (map snd (annotations self))) m))
              (Str (merged_tag (map os_family (map snd (annotations self))) m))
              (Str (merged_tag (map os_type (map snd (annotations self))) m))
              (Str (merged_tag (map os_version (map snd (annotations self))) m))
              (final_annotation self)\<rparr>"
  by (simp add: fuse_def Let_def merge_annotation_eq multi_device_entries_no_check)

lemma perform_annotation_split:
  "perform_annotation tc m self = hand_override (fuse tc m self)"
  by (simp add: perform_annotation_def fuse_def hand_override_def Let_def split: prod.splits)

lemma hand_step_eq:
  "hand_step hand s attr_name =
     s\<lparr>hand_miss := hand_miss s @
          miss_entry attr_name (getattr hand attr_name) (getattr (final_annotation s) attr_name),
       final_annotation :=
          (if truthy (getattr hand attr_name)
              \<and> getattr hand attr_name \<noteq> getattr (final_annotation s) attr_name
           then setattr (final_annotation s) attr_name (getattr hand attr_name)
           else final_annotation s)\<rparr>"
  by (simp add: hand_step_def miss_entry_def Let_def)

lemma hand_step_frame:
  "annotations (hand_step hand s attr_name) = annotations s"
  "one_miss (hand_step hand s attr_name) = one_miss s"
  "multi_device (hand_step hand s attr_name) = multi_device s"
  "data (hand_step hand s attr_name) = data s"
  "ip_addr (hand_step hand s attr_name) = ip_addr s"
  by (simp_all add: hand_step_def Let_def)

lemma hand_step_group:
  "final_annotation (hand_step hand s ''group'') =
     (final_annotation s)\<lparr>group := override_value (group hand) (group (final_annotation s))\<rparr>"
  "hand_miss (hand_step hand s ''group'') =
     hand_miss s @ miss_entry ''group'' (group hand) (group (final_annotation s))"
  by (simp_all add: hand_step_def Let_def getattr_def setattr_def override_value_def
      miss_entry_def)

lemma hand_step_class:
  "final_annotation (hand_step hand s ''_class'') =
     (final_annotation s)\<lparr>u_class := override_value (u_class hand) (u_class (final_annotation s))\<rparr>"
  "hand_miss (hand_step hand s ''_class'') =
     hand_miss s @ miss_entry ''_class'' (u_class hand) (u_class (final_annotation s))"
  by (simp_all add: hand_step_def Let_def getattr_def setattr_def override_value_def
      miss_entry_def)

lemma hand_step_os_family:
  "final_annotation (hand_step hand s ''os_family'') =
     (final_annotation s)\<lparr>os_family :=
        override_value (os_family hand) (os_family (final_annotation s))\<rparr>"
  "hand_miss (hand_step hand s ''os_family'') =
     hand_miss s @ miss_entry ''os_family'' (os_family hand) (os_family (final_annotation s))"
  by (simp_all add: hand_step_def Let_def getattr_def setattr_def override_value_def
      miss_entry_def)

lemma hand_step_os_type:
  "final_annotation (hand_step hand s ''os_type'') =
     (final_annotation s)\<lparr>os_type := override_value (os_type hand) (os_type (final_annotation s))\<rparr>"
  "hand_miss (hand_step hand s ''os_type'') =
     hand_miss s @ miss_entry ''os_type'' (os_type hand) (os_type (final_annotation s))"
  by (simp_all add: hand_step_def Let_def getattr_def setattr_def override_value_def
      miss_entry_def)

lemma hand_step_os_version:
  "final_annotation (hand_step hand s ''os_version'') =
     (final_annotation s)\<lparr>os_version :=
        override_value (os_version hand) (os_version (final_annotation s))\<rparr>"
  "hand_miss (hand_step hand s ''os_version'') =
     hand_miss s @ miss_entry ''os_version'' (os_version hand) (os_version (final_annotation s))"
  by (simp_all add: hand_step_def Let_def getattr_def setattr_def override_value_def
      miss_entry_def)

lemmas hand_steps = hand_step_group hand_step_class hand_step_os_family hand_step_os_type
  hand_step_os_version hand_step_frame

lemma hand_override_present:
  assumes "map_of (annotations s) ''hand_annotator'' = Some hand"
  shows "final_annotation (hand_override s) =
           \<lparr>group = override_value (group hand) (group (final_annotation s)),
            u_class = override_value (u_class hand) (u_class (final_annotation s)),
            os_family = override_value (os_family hand) (os_family (final_annotation s)),
            os_type = override_value (os_type hand) (os_type (final_annotation s)),
            os_version = override_value (os_version hand) (os_version (final_annotation s))\<rparr>"
    and "hand_miss (hand_override s) =
           hand_miss s
           @ miss_entry ''group'' (group hand) (group (final_annotation s))
           @ miss_entry ''_class'' (u_class hand) (u_class (final_annotation s))
           @ miss_entry ''os_family'' (os_family hand) (os_family (final_annotation s))
           @ miss_entry ''os_type'' (os_type hand) (os_type (final_annotation s))
           @ miss_entry ''os_version'' (os_version hand) (os_version (final_annotation s))"
  using assms by (simp_all add: hand_override_def hand_steps)

lemma hand_override_absent:
  "map_of (annotations s) ''hand_annotator'' = None \<Longrightarrow> hand_override s = s"
  by (simp add: hand_override_def)

lemma hand_override_frame:
  "annotations (hand_override s) = annotations s"
  "one_miss (hand_override s) = one_miss s"
  "multi_device (hand_override s) = multi_device s"
  "data (hand_override s) = data s"
  "ip_addr (hand_override s) = ip_addr s"
  by (simp_all add: hand_override_def hand_steps split: option.splits)

lemma fuse_frame:
  "annotations (fuse tc m s) = annotations s"
  "hand_miss (fuse tc m s) = hand_miss s"
  "data (fuse tc m s) = data s"
  "ip_addr (fuse tc m s) = ip_addr s"
  by (simp_all add: fuse_eq)

section \<open>The per-field merge\<close>

lemma count_list_pos: "x \<in> set xs \<Longrightarrow> 0 < count_list xs x"
  using count_list_0_iff[of xs x] by auto

text \<open>
  C4. After the absent values are dropped: with no value left the merge returns the empty
  tag and leaves the entry as it is; with one distinct value whose count reaches
  \<open>min_annotators_count\<close> it returns that value and leaves the entry as it is; with two
  distinct values, the majority reaching the threshold and the minority counted once, it
  returns the empty tag and appends one entry to \<open>one_miss\<close>, the whole count table (two
  rows: each value with its count). For the votes \<open>[A, A, B]\<close> and threshold 2 the
  appended table is \<open>[(A, 2), (B, 1)]\<close>.
\<close>

theorem merge_annotation_consensus_cases:
  "(set (truthy_tags tags) = {} \<longrightarrow> merge_annotation tags m nat_check self = ('''', self))
   \<and> (set (truthy_tags tags) = {a} \<and> m \<le> int (count_list (truthy_tags tags) a)
        \<longrightarrow> merge_annotation tags m nat_check self = (a, self))
   \<and> (set (truthy_tags tags) = {a, b} \<and> a \<noteq> b
        \<and> m \<le> int (count_list (truthy_tags tags) a) \<and> count_list (truthy_tags tags) b = 1
        \<longrightarrow> merge_annotation tags m nat_check self =
              ('''', self\<lparr>one_miss :=
                       one_miss self @ [most_common (Counter (truthy_tags tags))]\<rparr>)
            \<and> length (most_common (Counter (truthy_tags tags))) = 2
            \<and> set (most_common (Counter (truthy_tags tags))) =
                {(a, count_list (truthy_tags tags) a), (b, 1)})
   \<and> (A \<noteq> B \<and> A \<noteq> [] \<and> B \<noteq> []
        \<longrightarrow> merge_annotation [Some A, Some A, Some B] 2 nat_check self =
              ('''', self\<lparr>one_miss := one_miss self @ [[(A, 2), (B, 1)]]\<rparr>))"
proof (intro conjI impI)
  assume "set (truthy_tags tags) = {}"
  then show "merge_annotation tags m nat_check self = ('''', self)"
    by (rule merge_zero)
next
  assume h: "set (truthy_tags tags) = {a} \<and> m \<le> int (count_list (truthy_tags tags) a)"
  then show "merge_annotation tags m nat_check self = (a, self)"
    by (simp add: merge_single)
next
  assume h: "set (truthy_tags tags) = {a, b} \<and> a \<noteq> b
        \<and> m \<le> int (count_list (truthy_tags tags) a) \<and> count_list (truthy_tags tags) b = 1"
  let ?ts = "truthy_tags tags"
  from h have st: "set ?ts = {a, b}" and ne: "a \<noteq> b" and ma: "m \<le> int (count_list ?ts a)"
    and cb: "count_list ?ts b = 1" by auto
  have "0 < count_list ?ts a" using st by (intro count_list_pos) simp
  with cb have le: "count_list ?ts b \<le> count_list ?ts a" by simp
  show "merge_annotation tags m nat_check self =
      ('''', self\<lparr>one_miss := one_miss self @ [most_common (Counter ?ts)]\<rparr>)"
    using merge_pair[OF st ne le, of m nat_check self] ma cb by simp
  show "length (most_common (Counter ?ts)) = 2"
    by (rule table_pair(1)[OF st ne le])
  show "set (most_common (Counter ?ts)) = {(a, count_list ?ts a), (b, 1)}"
    using table_pair(4)[OF st ne le] cb by simp
next
  assume "A \<noteq> B \<and> A \<noteq> [] \<and> B \<noteq> []"
  then show "merge_annotation [Some A, Some A, Some B] 2 nat_check self =
      ('''', self\<lparr>one_miss := one_miss self @ [[(A, 2), (B, 1)]]\<rparr>)"
    by (simp add: merge_annotation_def Let_def truthy_tags_def truthy_def Counter_def
        most_common_def)
qed

text \<open>The four cases of C4 on concrete votes.\<close>

theorem merge_annotation_consensus_cases_witness:
  "merge_annotation [None, Some ''''] 2 True entry0 = ('''', entry0)
   \<and> merge_annotation [Some ''linux'', None, Some ''linux'', Some ''linux''] 2 True entry0
       = (''linux'', entry0)
   \<and> merge_annotation [Some ''linux'', Some ''windows'', Some ''linux''] 2 True entry0
       = ('''', entry0\<lparr>one_miss := [[(''linux'', 2), (''windows'', 1)]]\<rparr>)
   \<and> merge_annotation [Some ''linux'', Some ''linux'', Some ''windows''] 2 False entry0
       = ('''', entry0\<lparr>one_miss := [[(''linux'', 2), (''windows'', 1)]]\<rparr>)"
proof -
  have e: "one_miss entry0 = []" by (simp add: entry0_def)
  have t1: "set (truthy_tags [None, Some '''']) = {}"
    by (simp add: truthy_tags_def truthy_def)
  have t2: "set (truthy_tags [Some ''linux'', None, Some ''linux'', Some ''linux'']) = {''linux''}
      \<and> (2::int) \<le> int (count_list
            (truthy_tags [Some ''linux'', None, Some ''linux'', Some ''linux'']) ''linux'')"
    by (simp add: truthy_tags_def truthy_def)
  have t3: "set (truthy_tags [Some ''linux'', Some ''windows'', Some ''linux''])
        = {''linux'', ''windows''} \<and> ''linux'' \<noteq> ''windows''
      \<and> (2::int) \<le> int (count_list
            (truthy_tags [Some ''linux'', Some ''windows'', Some ''linux'']) ''linux'')
      \<and> count_list (truthy_tags [Some ''linux'', Some ''windows'', Some ''linux''])
            ''windows'' = 1"
    by (simp add: truthy_tags_def truthy_def insert_commute)
  have t3': "most_common (Counter (truthy_tags [Some ''linux'', Some ''windows'', Some ''linux'']))
      = [(''linux'', 2), (''windows'', 1)]"
    by (simp add: truthy_tags_def truthy_def Counter_def most_common_def)
  have t4: "''linux'' \<noteq> ''windows'' \<and> ''linux'' \<noteq> [] \<and> ''windows'' \<noteq> []"
    by simp
  note c1 = merge_annotation_consensus_cases[of "[None, Some '''']" 2 True entry0,
      THEN conjunct1, THEN mp, OF t1]
  note c2 = merge_annotation_consensus_cases[of
      "[Some ''linux'', None, Some ''linux'', Some ''linux'']" 2 True entry0 "''linux''",
      THEN conjunct2, THEN conjunct1, THEN mp, OF t2]
  note c3 = merge_annotation_consensus_cases[of
      "[Some ''linux'', Some ''windows'', Some ''linux'']" 2 True entry0 "''linux''" "''windows''",
      THEN conjunct2, THEN conjunct2, THEN conjunct1, THEN mp, OF t3, THEN conjunct1]
  note c4 = merge_annotation_consensus_cases[of _ _ False entry0 _ _ "''linux''" "''windows''",
      THEN conjunct2, THEN conjunct2, THEN conjunct2, THEN mp, OF t4]
  show ?thesis
    by (intro conjI) (simp_all only: c1 c2 c3 c4 e t3' append_Nil)
qed

lemma perform_multi_device:
  "multi_device (perform_annotation tc m self) =
     multi_device self
     @ multi_device_entries (map group (map snd (annotations self))) m True
     @ multi_device_entries (map os_family (map snd (annotations self))) m True
     @ multi_device_entries (map os_type (map snd (annotations self))) m True"
  by (simp add: perform_annotation_split hand_override_frame fuse_eq)

lemma merge_multi_device:
  "multi_device (snd (merge_annotation tags m nat_check s)) =
     multi_device s @ multi_device_entries tags m nat_check"
  by (simp add: merge_annotation_eq)

text \<open>
  C2, as the code has it. When at least two distinct values remain and the case is not
  the one-miss case (more than two distinct values; or two, with the majority below the
  threshold or the minority counted more than once), the merge returns the empty tag and
  appends exactly one \<open>multi_device\<close> entry, tagged with the list of present values, when
  \<open>nat_check\<close> is set, and nothing when it is not. When a single distinct value remains
  below the threshold, the merge returns the empty tag and appends nothing, whatever
  \<open>nat_check\<close> is. In \<open>perform_annotation\<close> only the merges of group, os\_family and
  os\_type append to \<open>multi_device\<close>: the list afterwards is what these three merges
  alone produce.
\<close>

theorem merge_annotation_escalation:
  "((2 < card (set (truthy_tags tags))
      \<or> (\<exists>a b. set (truthy_tags tags) = {a, b} \<and> a \<noteq> b
            \<and> count_list (truthy_tags tags) b \<le> count_list (truthy_tags tags) a
            \<and> (int (count_list (truthy_tags tags) a) < m
                 \<or> count_list (truthy_tags tags) b \<noteq> 1)))
     \<longrightarrow> merge_annotation tags m nat_check self =
           ('''', if nat_check
                  then self\<lparr>multi_device := multi_device self @
                         [(''IP:merge_annotation_fail'', truthy_tags tags)]\<rparr>
                  else self))
   \<and> (set (truthy_tags tags) = {c} \<and> int (count_list (truthy_tags tags) c) < m
        \<longrightarrow> merge_annotation tags m nat_check self = ('''', self))
   \<and> multi_device (perform_annotation tc m self) =
       multi_device
         (snd (merge_annotation (map os_type (map snd (annotations self))) m True
           (snd (merge_annotation (map os_family (map snd (annotations self))) m True
             (snd (merge_annotation (map group (map snd (annotations self))) m True self))))))"
proof (intro conjI impI)
  assume h: "2 < card (set (truthy_tags tags))
      \<or> (\<exists>a b. set (truthy_tags tags) = {a, b} \<and> a \<noteq> b
            \<and> count_list (truthy_tags tags) b \<le> count_list (truthy_tags tags) a
            \<and> (int (count_list (truthy_tags tags) a) < m
                 \<or> count_list (truthy_tags tags) b \<noteq> 1))"
  show "merge_annotation tags m nat_check self =
           ('''', if nat_check
                  then self\<lparr>multi_device := multi_device self @
                         [(''IP:merge_annotation_fail'', truthy_tags tags)]\<rparr>
                  else self)"
  proof (cases "2 < card (set (truthy_tags tags))")
    case True
    then show ?thesis by (simp add: merge_many)
  next
    case False
    with h obtain a b where st: "set (truthy_tags tags) = {a, b}" and ne: "a \<noteq> b"
      and le: "count_list (truthy_tags tags) b \<le> count_list (truthy_tags tags) a"
      and esc: "int (count_list (truthy_tags tags) a) < m
                 \<or> count_list (truthy_tags tags) b \<noteq> 1"
      by auto
    from esc show ?thesis
      by (auto simp: merge_pair[OF st ne le])
  qed
next
  assume "set (truthy_tags tags) = {c} \<and> int (count_list (truthy_tags tags) c) < m"
  then show "merge_annotation tags m nat_check self = ('''', self)"
    by (simp add: merge_single)
next
  show "multi_device (perform_annotation tc m self) =
       multi_device
         (snd (merge_annotation (map os_type (map snd (annotations self))) m True
           (snd (merge_annotation (map os_family (map snd (annotations self))) m True
             (snd (merge_annotation (map group (map snd (annotations self))) m True self))))))"
    by (simp add: perform_multi_device merge_multi_device)
qed

text \<open>
  The cases of C2 on concrete votes: three distinct values with and without
  \<open>nat_check\<close>, two values below the threshold, one value below the threshold.
\<close>

theorem merge_annotation_escalation_witness:
  "merge_annotation [Some ''linux'', Some ''windows'', Some ''macos''] 2 True entry0
     = ('''', entry0\<lparr>multi_device :=
          [(''IP:merge_annotation_fail'', [''linux'', ''windows'', ''macos''])]\<rparr>)
   \<and> merge_annotation [Some ''linux'', Some ''windows'', Some ''macos''] 2 False entry0
     = ('''', entry0)
   \<and> merge_annotation [Some ''linux'', Some ''windows''] 2 True entry0
     = ('''', entry0\<lparr>multi_device :=
          [(''IP:merge_annotation_fail'', [''linux'', ''windows''])]\<rparr>)
   \<and> merge_annotation [Some ''linux''] 2 True entry0 = ('''', entry0)"
proof -
  have e: "multi_device entry0 = []" by (simp add: entry0_def)
  have tt3: "truthy_tags [Some ''linux'', Some ''windows'', Some ''macos'']
      = [''linux'', ''windows'', ''macos'']"
    by (simp add: truthy_tags_def truthy_def)
  have tt2: "truthy_tags [Some ''linux'', Some ''windows''] = [''linux'', ''windows'']"
    by (simp add: truthy_tags_def truthy_def)
  have tt1: "truthy_tags [Some ''linux''] = [''linux'']"
    by (simp add: truthy_tags_def truthy_def)
  have h3: "2 < card (set (truthy_tags [Some ''linux'', Some ''windows'', Some ''macos'']))
      \<or> (\<exists>a b. set (truthy_tags [Some ''linux'', Some ''windows'', Some ''macos'']) = {a, b}
            \<and> a \<noteq> b
            \<and> count_list (truthy_tags [Some ''linux'', Some ''windows'', Some ''macos'']) b
                \<le> count_list (truthy_tags [Some ''linux'', Some ''windows'', Some ''macos'']) a
            \<and> (int (count_list
                      (truthy_tags [Some ''linux'', Some ''windows'', Some ''macos'']) a) < 2
                 \<or> count_list
                      (truthy_tags [Some ''linux'', Some ''windows'', Some ''macos'']) b \<noteq> 1))"
    by (rule disjI1) (simp add: tt3)
  have pair: "set [''linux'', ''windows''] = {''linux'', ''windows''} \<and> ''linux'' \<noteq> ''windows''
            \<and> count_list [''linux'', ''windows''] ''windows''
                \<le> count_list [''linux'', ''windows''] ''linux''
            \<and> (int (count_list [''linux'', ''windows''] ''linux'') < 2
                 \<or> count_list [''linux'', ''windows''] ''windows'' \<noteq> 1)"
    by simp
  have h2: "2 < card (set (truthy_tags [Some ''linux'', Some ''windows'']))
      \<or> (\<exists>a b. set (truthy_tags [Some ''linux'', Some ''windows'']) = {a, b}
            \<and> a \<noteq> b
            \<and> count_list (truthy_tags [Some ''linux'', Some ''windows'']) b
                \<le> count_list (truthy_tags [Some ''linux'', Some ''windows'']) a
            \<and> (int (count_list (truthy_tags [Some ''linux'', Some ''windows'']) a) < 2
                 \<or> count_list (truthy_tags [Some ''linux'', Some ''windows'']) b \<noteq> 1))"
    unfolding tt2 by (rule disjI2, rule exI[of _ "''linux''"], rule exI[of _ "''windows''"])
      (rule pair)
  have h1: "set (truthy_tags [Some ''linux'']) = {''linux''}
      \<and> int (count_list (truthy_tags [Some ''linux'']) ''linux'') < 2"
    by (simp add: tt1)
  note c3t = merge_annotation_escalation[of
      "[Some ''linux'', Some ''windows'', Some ''macos'']" 2 True entry0,
      THEN conjunct1, THEN mp, OF h3]
  note c3f = merge_annotation_escalation[of
      "[Some ''linux'', Some ''windows'', Some ''macos'']" 2 False entry0,
      THEN conjunct1, THEN mp, OF h3]
  note c2 = merge_annotation_escalation[of "[Some ''linux'', Some ''windows'']" 2 True entry0,
      THEN conjunct1, THEN mp, OF h2]
  note c1 = merge_annotation_escalation[of "[Some ''linux'']" 2 True entry0 "''linux''",
      THEN conjunct2, THEN conjunct1, THEN mp, OF h1]
  show ?thesis
    by (intro conjI) (simp_all only: c3t c3f c2 c1 e tt3 tt2 if_True if_False append_Nil)
qed

text \<open>
  C2 as stated fails: one candidate votes \<open>server\<close> for the group, the threshold is 2.
  The majority's count, 1, is below the threshold and the field is NAT-eligible, yet no
  \<open>multi_device\<close> entry is appended.
\<close>

theorem single_value_below_threshold_counterexample:
  "most_common (Counter (truthy_tags [Some ''server''])) = [(''server'', 1)]
   \<and> merge_annotation [Some ''server''] 2 True entry0 = ('''', entry0)
   \<and> multi_device (snd (merge_annotation [Some ''server''] 2 True entry0)) = []"
  by (simp add: merge_annotation_def Let_def truthy_tags_def truthy_def Counter_def
      most_common_def entry0_def)

section \<open>Fusion and hand override\<close>

lemma merged_tag_fst: "fst (merge_annotation tags m nat_check s) = merged_tag tags m"
  by (simp add: merge_annotation_eq)

text \<open>
  C1, as the code has it. Every record of the candidate map votes, the hand annotator's
  among them: the final record after fusion is \<open>set_annotation\<close> of the five merges, each
  taken over the values of all candidates in the order of the map. The hand override runs
  strictly after fusion: \<open>perform_annotation\<close> is \<open>hand_override\<close> applied to the fused
  entry, and fusion itself writes nothing to \<open>hand_miss\<close> and leaves the candidates as
  they are.
\<close>

theorem fusion_votes_over_all_candidates:
  "perform_annotation tc m self = hand_override (fuse tc m self)
   \<and> final_annotation (fuse tc m self) =
       set_annotation tc
         (Str (fst (merge_annotation (map group (map snd (annotations self))) m True self)))
         (Str (fst (merge_annotation (map u_class (map snd (annotations self))) m False self)))
         (Str (fst (merge_annotation (map os_family (map snd (annotations self))) m True self)))
         (Str (fst (merge_annotation (map os_type (map snd (annotations self))) m True self)))
         (Str (fst (merge_annotation (map os_version (map snd (annotations self))) m False self)))
         (final_annotation self)
   \<and> annotations (fuse tc m self) = annotations self
   \<and> hand_miss (fuse tc m self) = hand_miss self
   \<and> (map_of (annotations self) ''hand_annotator'' = Some hand
        \<longrightarrow> hand \<in> set (map snd (annotations self)))"
proof (intro conjI impI)
  show "perform_annotation tc m self = hand_override (fuse tc m self)"
    by (rule perform_annotation_split)
  show "final_annotation (fuse tc m self) =
       set_annotation tc
         (Str (fst (merge_annotation (map group (map snd (annotations self))) m True self)))
         (Str (fst (merge_annotation (map u_class (map snd (annotations self))) m False self)))
         (Str (fst (merge_annotation (map os_family (map snd (annotations self))) m True self)))
         (Str (fst (merge_annotation (map os_type (map snd (annotations self))) m True self)))
         (Str (fst (merge_annotation (map os_version (map snd (annotations self))) m False self)))
         (final_annotation self)"
    by (simp add: merged_tag_fst fuse_eq)
  show "annotations (fuse tc m self) = annotations self"
    by (rule fuse_frame)
  show "hand_miss (fuse tc m self) = hand_miss self"
    by (rule fuse_frame)
next
  assume "map_of (annotations self) ''hand_annotator'' = Some hand"
  then have "(''hand_annotator'', hand) \<in> set (annotations self)"
    by (rule map_of_SomeD)
  then show "hand \<in> set (map snd (annotations self))"
    by force
qed

text \<open>On an entry holding a hand record: the record is one of the voters.\<close>

theorem fusion_votes_over_all_candidates_witness:
  "server_web \<in> set (map snd (annotations entry_voted))
   \<and> perform_annotation tax0 2 entry_voted = hand_override (fuse tax0 2 entry_voted)"
proof -
  have h: "map_of (annotations entry_voted) ''hand_annotator'' = Some server_web"
    by (simp add: entry_voted_def entry0_def)
  note t = fusion_votes_over_all_candidates[of tax0 2 entry_voted server_web]
  from t[THEN conjunct2, THEN conjunct2, THEN conjunct2, THEN conjunct2, THEN mp, OF h]
    t[THEN conjunct1]
  show ?thesis by (rule conjI)
qed

lemma lower_server: "lower ''server'' = ''server''" "lower ''web'' = ''web''"
  by (simp_all add: lower_def lower_char_def)

text \<open>
  C1 as stated fails. One annotator and the hand annotator both say \<open>server\<close>, the
  threshold is 2. Over the non-hand candidates alone the group has one vote and fuses to
  absent; the code counts the hand record and fuses the group to \<open>server\<close>, so that the
  override finds nothing to correct and \<open>hand_miss\<close> stays empty.
\<close>

theorem hand_record_votes_counterexample:
  "group (final_annotation (fuse tax0 2 entry_voted)) = Some ''server''
   \<and> group (final_annotation (fuse tax0 2 entry_no_hand)) = None
   \<and> hand_miss (perform_annotation tax0 2 entry_voted) = []"
  by (simp add: perform_annotation_split fuse_eq hand_override_present(2)[where hand = server_web]
      merged_tag_def truthy_tags_def truthy_def Counter_def most_common_def Let_def
      entry_voted_def entry_no_hand_def entry0_def server_web_def tax0_def
      set_annotation_def validate_label_def check_os_def check_device_def lower_server
      empty_annotation_def miss_entry_def)

text \<open>
  C8. With a hand record on the entry, and reading "the fused value" of an attribute as
  the value the final record holds after fusion (after \<open>set_annotation\<close>, before the
  override): each attribute of the final record ends as \<open>override_value\<close> says, the hand
  value where it is present and differs, the fused value otherwise; \<open>hand_miss\<close> grows by
  \<open>miss_entry\<close> for each attribute in the order group, \_class, os\_family, os\_type,
  os\_version, one triple (name, hand value, fused value) where the hand value is present
  and differs and nothing otherwise; the other two audit lists are those of the fusion.
\<close>

theorem hand_override_rule:
  assumes "map_of (annotations self) ''hand_annotator'' = Some hand"
  shows "final_annotation (perform_annotation tc m self) =
           \<lparr>group = override_value (group hand) (group (final_annotation (fuse tc m self))),
            u_class = override_value (u_class hand) (u_class (final_annotation (fuse tc m self))),
            os_family =
              override_value (os_family hand) (os_family (final_annotation (fuse tc m self))),
            os_type = override_value (os_type hand) (os_type (final_annotation (fuse tc m self))),
            os_version =
              override_value (os_version hand) (os_version (final_annotation (fuse tc m self)))\<rparr>
         \<and> hand_miss (perform_annotation tc m self) =
           hand_miss self
           @ miss_entry ''group'' (group hand) (group (final_annotation (fuse tc m self)))
           @ miss_entry ''_class'' (u_class hand) (u_class (final_annotation (fuse tc m self)))
           @ miss_entry ''os_family'' (os_family hand)
               (os_family (final_annotation (fuse tc m self)))
           @ miss_entry ''os_type'' (os_type hand) (os_type (final_annotation (fuse tc m self)))
           @ miss_entry ''os_version'' (os_version hand)
               (os_version (final_annotation (fuse tc m self)))
         \<and> one_miss (perform_annotation tc m self) = one_miss (fuse tc m self)
         \<and> multi_device (perform_annotation tc m self) = multi_device (fuse tc m self)"
proof -
  from assms have h: "map_of (annotations (fuse tc m self)) ''hand_annotator'' = Some hand"
    by (simp add: fuse_frame)
  show ?thesis
    by (simp add: perform_annotation_split hand_override_present[OF h] hand_override_frame
        fuse_frame)
qed

lemma lower_linux: "lower ''linux'' = ''linux''" "lower ''ubuntu'' = ''ubuntu''"
  "lower ''windows'' = ''windows''"
  by (simp_all add: lower_def lower_char_def)

lemma fuse_entry_stale:
  "final_annotation (fuse tax0 2 entry_stale) = linux_ubuntu"
  by (simp add: fuse_eq merged_tag_def truthy_tags_def truthy_def Counter_def most_common_def
      Let_def entry_stale_def entry0_def linux_ubuntu_def windows_any_def tax0_def
      set_annotation_def validate_label_def check_os_def check_device_def lower_linux)

text \<open>
  The example of the specification: the final record holds \<open>linux\<close>, the hand record
  says \<open>windows\<close>.
\<close>

theorem hand_override_rule_witness:
  "final_annotation (perform_annotation tax0 2 entry_stale) =
     \<lparr>group = None, u_class = None, os_family = Some ''windows'', os_type = Some ''ubuntu'',
      os_version = None\<rparr>
   \<and> hand_miss (perform_annotation tax0 2 entry_stale) =
       [(''os_family'', Some ''windows'', Some ''linux'')]"
proof -
  have h: "map_of (annotations entry_stale) ''hand_annotator'' = Some windows_any"
    by (simp add: entry_stale_def entry0_def)
  have e: "hand_miss entry_stale = []"
    by (simp add: entry_stale_def entry0_def)
  note t = hand_override_rule[OF h, of tax0 2]
  show ?thesis
    by (simp add: t[THEN conjunct1] t[THEN conjunct2, THEN conjunct1] fuse_entry_stale e
        override_value_def miss_entry_def truthy_def windows_any_def linux_ubuntu_def)
qed

section \<open>The dependency invariant\<close>

lemma validate_label_truthy: "validate_label l = Some s \<Longrightarrow> truthy (Some s)"
  by (cases l) (auto simp: validate_label_def truthy_def lower_def split: if_splits)

lemma check_os_family_present: "check_os tc f t v \<Longrightarrow> \<exists>s. f = Some s"
  by (cases f) (simp_all add: check_os_def)

lemma check_device_group_present: "check_device tc g c \<Longrightarrow> \<exists>s. g = Some s"
  by (cases g) (simp_all add: check_device_def)

lemma set_annotation_os:
  "check_os tc (validate_label f) (validate_label t) (validate_label v) \<Longrightarrow>
     os_family (set_annotation tc g c f t v a) = validate_label f
     \<and> os_type (set_annotation tc g c f t v a) = validate_label t
     \<and> os_version (set_annotation tc g c f t v a) = validate_label v"
  "\<not> check_os tc (validate_label f) (validate_label t) (validate_label v) \<Longrightarrow>
     os_family (set_annotation tc g c f t v a) = os_family a
     \<and> os_type (set_annotation tc g c f t v a) = os_type a
     \<and> os_version (set_annotation tc g c f t v a) = os_version a"
  by (simp_all add: set_annotation_def Let_def)

lemma set_annotation_device:
  "check_device tc (validate_label g) (validate_label c) \<Longrightarrow>
     group (set_annotation tc g c f t v a) = validate_label g
     \<and> u_class (set_annotation tc g c f t v a) = validate_label c"
  "\<not> check_device tc (validate_label g) (validate_label c) \<Longrightarrow>
     group (set_annotation tc g c f t v a) = group a
     \<and> u_class (set_annotation tc g c f t v a) = u_class a"
  by (simp_all add: set_annotation_def Let_def)

lemma set_annotation_dependency:
  assumes "dependency_invariant a"
  shows "dependency_invariant (set_annotation tc g c f t v a)"
proof -
  have os: "truthy (os_type (set_annotation tc g c f t v a))
        \<or> truthy (os_version (set_annotation tc g c f t v a))
      \<longrightarrow> truthy (os_family (set_annotation tc g c f t v a))"
  proof (cases "check_os tc (validate_label f) (validate_label t) (validate_label v)")
    case True
    from check_os_family_present[OF True] obtain s where s: "validate_label f = Some s" ..
    then have "truthy (validate_label f)" by (simp add: validate_label_truthy)
    with True show ?thesis by (simp add: set_annotation_os(1))
  next
    case False
    with assms show ?thesis by (simp add: set_annotation_os(2) dependency_invariant_def)
  qed
  have dev: "truthy (u_class (set_annotation tc g c f t v a))
      \<longrightarrow> truthy (group (set_annotation tc g c f t v a))"
  proof (cases "check_device tc (validate_label g) (validate_label c)")
    case True
    from check_device_group_present[OF True] obtain s where s: "validate_label g = Some s" ..
    then have "truthy (validate_label g)" by (simp add: validate_label_truthy)
    with True show ?thesis by (simp add: set_annotation_device(1))
  next
    case False
    with assms show ?thesis by (simp add: set_annotation_device(2) dependency_invariant_def)
  qed
  from os dev show ?thesis by (simp add: dependency_invariant_def)
qed

lemma empty_annotation_dependency: "dependency_invariant empty_annotation"
  by (simp add: dependency_invariant_def empty_annotation_def truthy_def)

lemma truthy_override_value: "truthy (override_value h f) = (truthy h \<or> truthy f)"
  by (auto simp: override_value_def)

lemma override_dependency:
  assumes "dependency_invariant hand" and "dependency_invariant F"
  shows "dependency_invariant
           \<lparr>group = override_value (group hand) (group F),
            u_class = override_value (u_class hand) (u_class F),
            os_family = override_value (os_family hand) (os_family F),
            os_type = override_value (os_type hand) (os_type F),
            os_version = override_value (os_version hand) (os_version F)\<rparr>"
  using assms by (simp add: dependency_invariant_def truthy_override_value)

lemma validate_empty: "validate_label (Str '''') = None"
  by (simp add: validate_label_def)

text \<open>
  C9. The dependency invariant (a present class needs a present group, a present OS type
  or version needs a present OS family) holds for every record the constructor returns;
  \<open>set_annotation\<close> keeps it; the fusion block keeps it for the final record, and when
  the group (or the OS family) fuses to absent the device half (or the OS half) of the
  final record is left as it was, whatever the class (or type, version) fused to; and
  \<open>perform_annotation\<close> keeps it through the hand override when the hand record
  satisfies it.
\<close>

theorem dependency_invariant_kept:
  "dependency_invariant (Annotation_init tc g c f t v)
   \<and> (dependency_invariant a \<longrightarrow> dependency_invariant (set_annotation tc g c f t v a))
   \<and> (dependency_invariant (final_annotation self)
        \<longrightarrow> dependency_invariant (final_annotation (fuse tc m self)))
   \<and> (fst (merge_annotation (map group (map snd (annotations self))) m True self) = ''''
        \<longrightarrow> group (final_annotation (fuse tc m self)) = group (final_annotation self)
            \<and> u_class (final_annotation (fuse tc m self)) = u_class (final_annotation self))
   \<and> (fst (merge_annotation (map os_family (map snd (annotations self))) m True self) = ''''
        \<longrightarrow> os_family (final_annotation (fuse tc m self)) = os_family (final_annotation self)
            \<and> os_type (final_annotation (fuse tc m self)) = os_type (final_annotation self)
            \<and> os_version (final_annotation (fuse tc m self))
                = os_version (final_annotation self))
   \<and> (dependency_invariant (final_annotation self)
        \<and> (case map_of (annotations self) ''hand_annotator'' of
              None \<Rightarrow> True | Some hand \<Rightarrow> dependency_invariant hand)
        \<longrightarrow> dependency_invariant (final_annotation (perform_annotation tc m self)))"
proof -
  have p1: "dependency_invariant (Annotation_init tc g c f t v)"
    by (simp add: Annotation_init_def set_annotation_dependency empty_annotation_dependency)
  have p2: "dependency_invariant a \<longrightarrow> dependency_invariant (set_annotation tc g c f t v a)"
    by (simp add: set_annotation_dependency)
  have p3: "dependency_invariant (final_annotation self)
        \<longrightarrow> dependency_invariant (final_annotation (fuse tc m self))"
    by (simp add: fuse_eq set_annotation_dependency)
  have p4: "fst (merge_annotation (map group (map snd (annotations self))) m True self) = ''''
        \<longrightarrow> group (final_annotation (fuse tc m self)) = group (final_annotation self)
            \<and> u_class (final_annotation (fuse tc m self)) = u_class (final_annotation self)"
  proof (intro impI)
  assume "fst (merge_annotation (map group (map snd (annotations self))) m True self) = ''''"
  then have "\<not> check_device tc
      (validate_label (Str (merged_tag (map group (map snd (annotations self))) m)))
      (validate_label (Str (merged_tag (map u_class (map snd (annotations self))) m)))"
    by (simp add: merged_tag_fst validate_empty check_device_def)
  then show "group (final_annotation (fuse tc m self)) = group (final_annotation self)
      \<and> u_class (final_annotation (fuse tc m self)) = u_class (final_annotation self)"
    by (simp add: fuse_eq set_annotation_device(2))
  qed
  have p5: "fst (merge_annotation (map os_family (map snd (annotations self))) m True self) = ''''
        \<longrightarrow> os_family (final_annotation (fuse tc m self)) = os_family (final_annotation self)
            \<and> os_type (final_annotation (fuse tc m self)) = os_type (final_annotation self)
            \<and> os_version (final_annotation (fuse tc m self))
                = os_version (final_annotation self)"
  proof (intro impI)
  assume "fst (merge_annotation (map os_family (map snd (annotations self))) m True self) = ''''"
  then have "\<not> check_os tc
      (validate_label (Str (merged_tag (map os_family (map snd (annotations self))) m)))
      (validate_label (Str (merged_tag (map os_type (map snd (annotations self))) m)))
      (validate_label (Str (merged_tag (map os_version (map snd (annotations self))) m)))"
    by (simp add: merged_tag_fst validate_empty check_os_def)
  then show "os_family (final_annotation (fuse tc m self)) = os_family (final_annotation self)
      \<and> os_type (final_annotation (fuse tc m self)) = os_type (final_annotation self)
      \<and> os_version (final_annotation (fuse tc m self)) = os_version (final_annotation self)"
    by (simp add: fuse_eq set_annotation_os(2))
  qed
  have p6: "dependency_invariant (final_annotation self)
        \<and> (case map_of (annotations self) ''hand_annotator'' of
              None \<Rightarrow> True | Some hand \<Rightarrow> dependency_invariant hand)
        \<longrightarrow> dependency_invariant (final_annotation (perform_annotation tc m self))"
  proof (intro impI)
  assume h: "dependency_invariant (final_annotation self)
        \<and> (case map_of (annotations self) ''hand_annotator'' of
              None \<Rightarrow> True | Some hand \<Rightarrow> dependency_invariant hand)"
  then have F: "dependency_invariant (final_annotation (fuse tc m self))"
    by (simp add: fuse_eq set_annotation_dependency)
  show "dependency_invariant (final_annotation (perform_annotation tc m self))"
  proof (cases "map_of (annotations self) ''hand_annotator''")
    case None
    then have "map_of (annotations (fuse tc m self)) ''hand_annotator'' = None"
      by (simp add: fuse_frame)
    then show ?thesis using F
      by (simp add: perform_annotation_split hand_override_absent)
  next
    case (Some hand)
    with h have H: "dependency_invariant hand" by simp
    from Some have "map_of (annotations (fuse tc m self)) ''hand_annotator'' = Some hand"
      by (simp add: fuse_frame)
    then show ?thesis
      by (simp add: perform_annotation_split hand_override_present(1)
          override_dependency[OF H F])
  qed
  qed
  show ?thesis
    by (intro conjI p1 p2 p3 p4 p5 p6)
qed

lemma fuse_entry_disputed:
  "fst (merge_annotation (map group (map snd (annotations entry_disputed))) 2 True entry_disputed)
     = ''''"
  "fst (merge_annotation (map u_class (map snd (annotations entry_disputed))) 2 False
     entry_disputed) = ''laptop''"
  by (simp_all add: merged_tag_fst merged_tag_def truthy_tags_def truthy_def Counter_def
      most_common_def Let_def entry_disputed_def entry0_def workstation_laptop_def
      mobile_laptop_def)

text \<open>
  The invariant through a fusion with a dissenting hand record, and a class consensus
  (\<open>laptop\<close>) dropped because the groups disagree.
\<close>

theorem dependency_invariant_kept_witness:
  "dependency_invariant (final_annotation entry_stale)
   \<and> dependency_invariant windows_any
   \<and> dependency_invariant (final_annotation (perform_annotation tax0 2 entry_stale))
   \<and> dependency_invariant (final_annotation (fuse tax0 2 entry_stale))
   \<and> dependency_invariant (set_annotation tax0 (Str ''workstation'') NA NA NA NA server_web)
   \<and> fst (merge_annotation (map group (map snd (annotations entry_disputed))) 2 True
        entry_disputed) = ''''
   \<and> fst (merge_annotation (map u_class (map snd (annotations entry_disputed))) 2 False
        entry_disputed) = ''laptop''
   \<and> group (final_annotation (fuse tax0 2 entry_disputed)) = None
   \<and> u_class (final_annotation (fuse tax0 2 entry_disputed)) = None"
proof -
  have f: "dependency_invariant (final_annotation entry_stale)"
    by (simp add: entry_stale_def entry0_def linux_ubuntu_def dependency_invariant_def truthy_def)
  have w: "dependency_invariant windows_any"
    by (simp add: windows_any_def dependency_invariant_def truthy_def)
  have s: "dependency_invariant server_web"
    by (simp add: server_web_def dependency_invariant_def truthy_def)
  have h: "dependency_invariant (final_annotation entry_stale)
        \<and> (case map_of (annotations entry_stale) ''hand_annotator'' of
              None \<Rightarrow> True | Some hand \<Rightarrow> dependency_invariant hand)"
    using f w by (simp add: entry_stale_def entry0_def)
  have fd: "final_annotation entry_disputed = empty_annotation"
    by (simp add: entry_disputed_def entry0_def)
  note t = dependency_invariant_kept[of tax0]
  note k6 = t[of _ _ _ _ _ _ entry_stale 2, THEN conjunct2, THEN conjunct2, THEN conjunct2,
      THEN conjunct2, THEN conjunct2, THEN mp, OF h]
  note k3 = t[of _ _ _ _ _ _ entry_stale 2, THEN conjunct2, THEN conjunct2, THEN conjunct1,
      THEN mp, OF f]
  note k2 = t[of "Str ''workstation''" NA NA NA NA server_web, THEN conjunct2, THEN conjunct1,
      THEN mp, OF s]
  note k4 = t[of _ _ _ _ _ _ entry_disputed 2, THEN conjunct2, THEN conjunct2, THEN conjunct2,
      THEN conjunct1, THEN mp, OF fuse_entry_disputed(1)]
  have k4': "group (final_annotation (fuse tax0 2 entry_disputed)) = None
      \<and> u_class (final_annotation (fuse tax0 2 entry_disputed)) = None"
    using k4 by (simp add: fd empty_annotation_def)
  show ?thesis
    by (intro conjI f w k6 k3 k2 fuse_entry_disputed k4'[THEN conjunct1] k4'[THEN conjunct2])
qed

section \<open>Running the fusion again\<close>

lemma perform_annotations: "annotations (perform_annotation tc m self) = annotations self"
  by (simp add: perform_annotation_split hand_override_frame fuse_frame)

lemma perform_one_miss:
  "one_miss (perform_annotation tc m self) =
     one_miss self
     @ (one_miss_entries (map group (map snd (annotations self))) m
        @ one_miss_entries (map u_class (map snd (annotations self))) m
        @ one_miss_entries (map os_family (map snd (annotations self))) m
        @ one_miss_entries (map os_type (map snd (annotations self))) m
        @ one_miss_entries (map os_version (map snd (annotations self))) m)"
  by (simp add: perform_annotation_split hand_override_frame fuse_eq)

lemma perform_multi_device':
  "multi_device (perform_annotation tc m self) =
     multi_device self
     @ (multi_device_entries (map group (map snd (annotations self))) m True
        @ multi_device_entries (map os_family (map snd (annotations self))) m True
        @ multi_device_entries (map os_type (map snd (annotations self))) m True)"
  by (simp add: perform_multi_device)

lemma perform_hand_miss: "\<exists>hm. hand_miss (perform_annotation tc m self) = hand_miss self @ hm"
proof (cases "map_of (annotations (fuse tc m self)) ''hand_annotator''")
  case None
  then show ?thesis
    by (simp add: perform_annotation_split hand_override_absent fuse_frame)
next
  case (Some hand)
  show ?thesis
    by (simp add: perform_annotation_split hand_override_present(2)[OF Some] fuse_frame)
qed

lemma override_value_idem: "override_value h (override_value h f) = override_value h f"
  by (simp add: override_value_def)

lemma perform_final:
  "final_annotation (perform_annotation tc m self) =
     (case map_of (annotations self) ''hand_annotator'' of
        None \<Rightarrow> final_annotation (fuse tc m self)
      | Some hand \<Rightarrow> override_record hand (final_annotation (fuse tc m self)))"
proof (cases "map_of (annotations self) ''hand_annotator''")
  case None
  then have "map_of (annotations (fuse tc m self)) ''hand_annotator'' = None"
    by (simp add: fuse_frame)
  with None show ?thesis
    by (simp add: perform_annotation_split hand_override_absent)
next
  case (Some hand)
  then have "map_of (annotations (fuse tc m self)) ''hand_annotator'' = Some hand"
    by (simp add: fuse_frame)
  with Some show ?thesis
    by (simp add: perform_annotation_split hand_override_present(1) override_record_def)
qed

lemma fuse_final:
  "final_annotation (fuse tc m self) =
     set_annotation tc
       (Str (merged_tag (map group (map snd (annotations self))) m))
       (Str (merged_tag (map u_class (map snd (annotations self))) m))
       (Str (merged_tag (map os_family (map snd (annotations self))) m))
       (Str (merged_tag (map os_type (map snd (annotations self))) m))
       (Str (merged_tag (map os_version (map snd (annotations self))) m))
       (final_annotation self)"
  by (simp add: fuse_eq)

lemma set_annotation_idem:
  "set_annotation tc g c f t v (set_annotation tc g c f t v a) = set_annotation tc g c f t v a"
  by (simp add: set_annotation_def Let_def)

lemma set_override_set:
  "override_record h
     (set_annotation tc g c f t v (override_record h (set_annotation tc g c f t v a)))
   = override_record h (set_annotation tc g c f t v a)"
proof -
  have os: "check_os tc (validate_label f) (validate_label t) (validate_label v)
      \<or> \<not> check_os tc (validate_label f) (validate_label t) (validate_label v)" by simp
  have dev: "check_device tc (validate_label g) (validate_label c)
      \<or> \<not> check_device tc (validate_label g) (validate_label c)" by simp
  from os dev show ?thesis
    by (elim disjE)
      (simp_all add: override_record_def set_annotation_os set_annotation_device
        override_value_idem)
qed
lemma perform_final_idem:
  "final_annotation (perform_annotation tc m (perform_annotation tc m self)) =
     final_annotation (perform_annotation tc m self)"
proof (cases "map_of (annotations self) ''hand_annotator''")
  case None
  then show ?thesis
    by (simp add: perform_final perform_annotations fuse_final set_annotation_idem)
next
  case (Some hand)
  then show ?thesis
    by (simp add: perform_final perform_annotations fuse_final set_override_set)
qed

text \<open>
  C5, as the code has it. A second \<open>perform_annotation\<close> with the same threshold on
  unchanged candidates leaves the same final record. The audit lists are not the same:
  nothing resets them, so the second run appends to \<open>one_miss\<close> and \<open>multi_device\<close> the
  entries the first run appended, once more, and \<open>hand_miss\<close> is only ever extended.
\<close>

theorem perform_annotation_rerun:
  "final_annotation (perform_annotation tc m (perform_annotation tc m self)) =
     final_annotation (perform_annotation tc m self)
   \<and> annotations (perform_annotation tc m self) = annotations self
   \<and> (\<exists>om md hm hm'.
        one_miss (perform_annotation tc m self) = one_miss self @ om
        \<and> one_miss (perform_annotation tc m (perform_annotation tc m self))
            = one_miss self @ om @ om
        \<and> multi_device (perform_annotation tc m self) = multi_device self @ md
        \<and> multi_device (perform_annotation tc m (perform_annotation tc m self))
            = multi_device self @ md @ md
        \<and> hand_miss (perform_annotation tc m self) = hand_miss self @ hm
        \<and> hand_miss (perform_annotation tc m (perform_annotation tc m self))
            = hand_miss self @ hm @ hm')"
proof -
  obtain hm where hm: "hand_miss (perform_annotation tc m self) = hand_miss self @ hm"
    using perform_hand_miss by blast
  obtain hm' where hm':
    "hand_miss (perform_annotation tc m (perform_annotation tc m self))
       = hand_miss (perform_annotation tc m self) @ hm'"
    using perform_hand_miss by blast
  have om: "one_miss (perform_annotation tc m (perform_annotation tc m self)) =
      one_miss self
      @ (one_miss_entries (map group (map snd (annotations self))) m
        @ one_miss_entries (map u_class (map snd (annotations self))) m
        @ one_miss_entries (map os_family (map snd (annotations self))) m
        @ one_miss_entries (map os_type (map snd (annotations self))) m
        @ one_miss_entries (map os_version (map snd (annotations self))) m)
      @ (one_miss_entries (map group (map snd (annotations self))) m
        @ one_miss_entries (map u_class (map snd (annotations self))) m
        @ one_miss_entries (map os_family (map snd (annotations self))) m
        @ one_miss_entries (map os_type (map snd (annotations self))) m
        @ one_miss_entries (map os_version (map snd (annotations self))) m)"
    by (simp only: perform_one_miss[of tc m "perform_annotation tc m self"] perform_annotations
        perform_one_miss[of tc m self] append_assoc)
  have md: "multi_device (perform_annotation tc m (perform_annotation tc m self)) =
      multi_device self
      @ (multi_device_entries (map group (map snd (annotations self))) m True
        @ multi_device_entries (map os_family (map snd (annotations self))) m True
        @ multi_device_entries (map os_type (map snd (annotations self))) m True)
      @ (multi_device_entries (map group (map snd (annotations self))) m True
        @ multi_device_entries (map os_family (map snd (annotations self))) m True
        @ multi_device_entries (map os_type (map snd (annotations self))) m True)"
    by (simp only: perform_multi_device'[of tc m "perform_annotation tc m self"]
        perform_annotations perform_multi_device'[of tc m self] append_assoc)
  have ex: "\<exists>om md hm hm'.
        one_miss (perform_annotation tc m self) = one_miss self @ om
        \<and> one_miss (perform_annotation tc m (perform_annotation tc m self))
            = one_miss self @ om @ om
        \<and> multi_device (perform_annotation tc m self) = multi_device self @ md
        \<and> multi_device (perform_annotation tc m (perform_annotation tc m self))
            = multi_device self @ md @ md
        \<and> hand_miss (perform_annotation tc m self) = hand_miss self @ hm
        \<and> hand_miss (perform_annotation tc m (perform_annotation tc m self))
            = hand_miss self @ hm @ hm'"
    apply (rule exI[of _ "one_miss_entries (map group (map snd (annotations self))) m
        @ one_miss_entries (map u_class (map snd (annotations self))) m
        @ one_miss_entries (map os_family (map snd (annotations self))) m
        @ one_miss_entries (map os_type (map snd (annotations self))) m
        @ one_miss_entries (map os_version (map snd (annotations self))) m"])
    apply (rule exI[of _ "multi_device_entries (map group (map snd (annotations self))) m True
        @ multi_device_entries (map os_family (map snd (annotations self))) m True
        @ multi_device_entries (map os_type (map snd (annotations self))) m True"])
    apply (rule exI[of _ hm])
    apply (rule exI[of _ hm'])
    apply (intro conjI)
         apply (rule perform_one_miss)
        apply (rule om)
       apply (rule perform_multi_device')
      apply (rule md)
     apply (rule hm)
    apply (simp only: hm' hm append_assoc)
    done
  show ?thesis
    by (intro conjI perform_final_idem perform_annotations ex)
qed

text \<open>
  C5 as stated fails: two annotators disagree on the group. The first run appends one
  \<open>multi_device\<close> entry, the second run appends it again, and the entry after the second
  run is not the entry after the first.
\<close>

theorem rerun_appends_again_counterexample:
  "multi_device (perform_annotation tax0 2 entry_disputed) =
     [(''IP:merge_annotation_fail'', [''workstation'', ''mobile''])]
   \<and> multi_device (perform_annotation tax0 2 (perform_annotation tax0 2 entry_disputed)) =
     [(''IP:merge_annotation_fail'', [''workstation'', ''mobile'']),
      (''IP:merge_annotation_fail'', [''workstation'', ''mobile''])]
   \<and> perform_annotation tax0 2 (perform_annotation tax0 2 entry_disputed)
       \<noteq> perform_annotation tax0 2 entry_disputed"
proof -
  have tags: "map group (map snd (annotations entry_disputed))
      = [Some ''workstation'', Some ''mobile'']"
    "map os_family (map snd (annotations entry_disputed)) = [None, None]"
    "map os_type (map snd (annotations entry_disputed)) = [None, None]"
    by (simp_all add: entry_disputed_def entry0_def workstation_laptop_def mobile_laptop_def)
  have e: "multi_device entry_disputed = []"
    by (simp add: entry_disputed_def entry0_def)
  have g: "multi_device_entries [Some ''workstation'', Some ''mobile''] 2 True
      = [(''IP:merge_annotation_fail'', [''workstation'', ''mobile''])]"
    by (simp add: multi_device_entries_def truthy_tags_def truthy_def Counter_def
        most_common_def Let_def)
  have n: "multi_device_entries [None, None] 2 True = []"
    by (simp add: multi_device_entries_def truthy_tags_def truthy_def Counter_def
        most_common_def Let_def)
  have one: "multi_device (perform_annotation tax0 2 entry_disputed) =
     [(''IP:merge_annotation_fail'', [''workstation'', ''mobile''])]"
    by (simp only: perform_multi_device tags e g n) simp
  have two: "multi_device (perform_annotation tax0 2 (perform_annotation tax0 2 entry_disputed)) =
     [(''IP:merge_annotation_fail'', [''workstation'', ''mobile'']),
      (''IP:merge_annotation_fail'', [''workstation'', ''mobile''])]"
    by (simp only: perform_multi_device[of tax0 2 "perform_annotation tax0 2 entry_disputed"]
        perform_annotations tags one g n) simp
  have "multi_device (perform_annotation tax0 2 (perform_annotation tax0 2 entry_disputed))
      \<noteq> multi_device (perform_annotation tax0 2 entry_disputed)"
    by (simp only: one two) simp
  then have ne: "perform_annotation tax0 2 (perform_annotation tax0 2 entry_disputed)
       \<noteq> perform_annotation tax0 2 entry_disputed"
    by (rule contrapos_nn) simp
  from one two ne show ?thesis by (intro conjI)
qed

section \<open>Export and load\<close>

lemma lower_char_idem: "lower_char (lower_char c) = lower_char c"
  by (simp add: lower_char_def)

lemma lower_idem: "lower (lower s) = lower s"
  by (simp add: lower_def lower_char_idem)

lemma lower_Nil: "(lower s = []) = (s = [])"
  by (simp add: lower_def)

lemma validate_label_normalized: "normalized (validate_label l)"
  by (cases l) (simp_all add: validate_label_def normalized_def lower_idem lower_Nil)

lemma validate_label_of: "normalized v \<Longrightarrow> validate_label (label_of v) = v"
  by (cases v) (simp_all add: validate_label_def label_of_def normalized_def)

lemma set_annotation_valid:
  assumes "valid_annotation tc a"
  shows "valid_annotation tc (set_annotation tc g c f t v a)"
proof -
  have os: "check_os tc (validate_label f) (validate_label t) (validate_label v)
      \<or> \<not> check_os tc (validate_label f) (validate_label t) (validate_label v)" by simp
  have dev: "check_device tc (validate_label g) (validate_label c)
      \<or> \<not> check_device tc (validate_label g) (validate_label c)" by simp
  from os dev assms show ?thesis
    by (elim disjE)
      (simp_all add: valid_annotation_def set_annotation_os set_annotation_device
        validate_label_normalized)
qed

lemma empty_annotation_valid: "valid_annotation tc empty_annotation"
  by (simp add: valid_annotation_def empty_annotation_def normalized_def)

lemma Annotation_init_valid: "valid_annotation tc (Annotation_init tc g c f t v)"
  by (simp add: Annotation_init_def set_annotation_valid empty_annotation_valid)

lemma Annotation_load_export:
  assumes "valid_annotation tc r"
  shows "Annotation_load tc (Annotation_export r) = r"
proof -
  from assms have n: "validate_label (label_of (group r)) = group r"
    "validate_label (label_of (u_class r)) = u_class r"
    "validate_label (label_of (os_family r)) = os_family r"
    "validate_label (label_of (os_type r)) = os_type r"
    "validate_label (label_of (os_version r)) = os_version r"
    by (simp_all add: valid_annotation_def validate_label_of)
  from assms have os: "check_os tc (os_family r) (os_type r) (os_version r)
      \<or> (os_family r = None \<and> os_type r = None \<and> os_version r = None)"
    by (simp add: valid_annotation_def)
  from assms have dev: "check_device tc (group r) (u_class r)
      \<or> (group r = None \<and> u_class r = None)"
    by (simp add: valid_annotation_def)
  have "Annotation_load tc (Annotation_export r) =
      \<lparr>group = group r, u_class = u_class r, os_family = os_family r, os_type = os_type r,
       os_version = os_version r\<rparr>"
    using os dev
    by (auto simp: Annotation_load_def Annotation_export_def Annotation_init_def
        set_annotation_def Let_def n empty_annotation_def)
  then show ?thesis by simp
qed

lemma load_export_candidates:
  assumes "\<forall>a \<in> set (map snd xs). valid_annotation tc a"
  shows "map ((\<lambda>(name, anno). (name, Annotation_load tc anno))
             \<circ> (\<lambda>(key, v). (key, Annotation_export v))) xs = xs"
  using assms by (induction xs) (auto simp: Annotation_load_export)

lemma IP_load_export:
  fixes e :: "'d IP"
  assumes "parse_ip (str_ip (ip_addr e)) = Some (ip_addr e)"
    and "valid_annotation tc (final_annotation e)"
    and "\<forall>a \<in> set (map snd (annotations e)). valid_annotation tc a"
  shows "IP_load parse_ip tc (IP_export str_ip e) = Inr e"
  using assms(1)
  by (simp add: IP_load_def IP_export_def IP_init_def get_default_def
      Annotation_load_export[OF assms(2)] load_export_candidates[OF assms(3)])

text \<open>
  C7, as the code has it. \<open>load\<close> builds the record again through the constructor, which
  normalises and checks it, so the round trip is exact on the records the constructor
  produces: every such record is valid (each attribute \<open>None\<close> or a non-empty lower-case
  string, each half passing its taxonomy check or all \<open>None\<close>), and every valid record
  \<open>r\<close> satisfies \<open>load (export r) = r\<close>. An entry whose final record and candidate
  records are valid, and whose address is read back by the parser from what the printer
  wrote, satisfies \<open>IP.load (export e) = e\<close>: same address, final record, candidate map,
  evidence and audit lists.
\<close>

theorem export_load_round_trip:
  fixes e :: "'d IP"
  shows "Annotation_load tc (Annotation_export (Annotation_init tc g c f t v))
           = Annotation_init tc g c f t v
   \<and> valid_annotation tc (Annotation_init tc g c f t v)
   \<and> (valid_annotation tc r \<longrightarrow> Annotation_load tc (Annotation_export r) = r)
   \<and> (parse_ip (str_ip (ip_addr e)) = Some (ip_addr e)
        \<and> valid_annotation tc (final_annotation e)
        \<and> (\<forall>a \<in> set (map snd (annotations e)). valid_annotation tc a)
        \<longrightarrow> IP_load parse_ip tc (IP_export str_ip e) = Inr e)"
proof -
  have p1: "Annotation_load tc (Annotation_export (Annotation_init tc g c f t v))
           = Annotation_init tc g c f t v"
    by (rule Annotation_load_export[OF Annotation_init_valid])
  have p3: "valid_annotation tc r \<longrightarrow> Annotation_load tc (Annotation_export r) = r"
    by (simp add: Annotation_load_export)
  have p4: "parse_ip (str_ip (ip_addr e)) = Some (ip_addr e)
        \<and> valid_annotation tc (final_annotation e)
        \<and> (\<forall>a \<in> set (map snd (annotations e)). valid_annotation tc a)
        \<longrightarrow> IP_load parse_ip tc (IP_export str_ip e) = Inr e"
  proof (intro impI)
    assume h: "parse_ip (str_ip (ip_addr e)) = Some (ip_addr e)
        \<and> valid_annotation tc (final_annotation e)
        \<and> (\<forall>a \<in> set (map snd (annotations e)). valid_annotation tc a)"
    show "IP_load parse_ip tc (IP_export str_ip e) = Inr e"
      by (rule IP_load_export[of parse_ip str_ip e tc, OF h[THEN conjunct1]
            h[THEN conjunct2, THEN conjunct1] h[THEN conjunct2, THEN conjunct2]])
  qed
  show ?thesis
    by (intro conjI p1 Annotation_init_valid p3 p4)
qed

lemma lower_workstation: "lower ''workstation'' = ''workstation''"
  by (simp add: lower_def lower_char_def)

text \<open>A valid record and an entry with two candidates, through export and load.\<close>

theorem export_load_round_trip_witness:
  "valid_annotation tax0 server_web
   \<and> Annotation_load tax0 (Annotation_export server_web) = server_web
   \<and> IP_load parse0 tax0 (IP_export str0 entry_voted) = Inr entry_voted"
proof -
  have v: "valid_annotation tax0 server_web"
    by (simp add: valid_annotation_def server_web_def normalized_def lower_server
        check_device_def tax0_def)
  have h: "parse0 (str0 (ip_addr entry_voted)) = Some (ip_addr entry_voted)
        \<and> valid_annotation tax0 (final_annotation entry_voted)
        \<and> (\<forall>a \<in> set (map snd (annotations entry_voted)). valid_annotation tax0 a)"
    using v by (simp add: entry_voted_def entry0_def parse0_def str0_def empty_annotation_valid)
  note t = export_load_round_trip[of tax0 _ _ _ _ _ server_web parse0 str0 entry_voted]
  note r = t[THEN conjunct2, THEN conjunct2, THEN conjunct1, THEN mp, OF v]
  note i = t[THEN conjunct2, THEN conjunct2, THEN conjunct2, THEN mp, OF h]
  show ?thesis
    by (intro conjI v r i)
qed

lemma entry_fused_once_fields:
  "annotations entry_fused_once = [(''mac_annotator'', server_web), (''sni_annotator'', server_web)]"
  "final_annotation entry_fused_once = server_web"
proof -
  show a: "annotations entry_fused_once
      = [(''mac_annotator'', server_web), (''sni_annotator'', server_web)]"
    by (simp add: entry_fused_once_def perform_annotations add_annotation_def entry0_def)
  have tags: "map group (map snd [(''mac_annotator'', server_web), (''sni_annotator'', server_web)])
        = [Some ''server'', Some ''server'']"
    "map u_class (map snd [(''mac_annotator'', server_web), (''sni_annotator'', server_web)])
        = [Some ''web'', Some ''web'']"
    "map os_family (map snd [(''mac_annotator'', server_web), (''sni_annotator'', server_web)])
        = [None, None]"
    "map os_type (map snd [(''mac_annotator'', server_web), (''sni_annotator'', server_web)])
        = [None, None]"
    "map os_version (map snd [(''mac_annotator'', server_web), (''sni_annotator'', server_web)])
        = [None, None]"
    by (simp_all add: server_web_def)
  have m: "merged_tag [Some ''server'', Some ''server''] 2 = ''server''"
    "merged_tag [Some ''web'', Some ''web''] 2 = ''web''"
    "merged_tag [None, None] 2 = ''''"
    by (simp_all add: merged_tag_def truthy_tags_def truthy_def Counter_def most_common_def
        Let_def)
  have s: "set_annotation tax0 (Str ''server'') (Str ''web'') (Str '''') (Str '''') (Str '''')
      empty_annotation = server_web"
    by (simp add: set_annotation_def validate_label_def lower_server check_os_def
        check_device_def tax0_def empty_annotation_def server_web_def Let_def)
  have pre: "annotations (add_annotation ''sni_annotator'' server_web
         (add_annotation ''mac_annotator'' server_web entry0))
      = [(''mac_annotator'', server_web), (''sni_annotator'', server_web)]"
    "final_annotation (add_annotation ''sni_annotator'' server_web
         (add_annotation ''mac_annotator'' server_web entry0)) = empty_annotation"
    by (simp_all add: add_annotation_def entry0_def)
  have hand: "map_of [(''mac_annotator'', server_web), (''sni_annotator'', server_web)]
      ''hand_annotator'' = None"
    by simp
  show "final_annotation entry_fused_once = server_web"
    by (simp only: entry_fused_once_def perform_final fuse_final pre hand tags m s
        option.case)
qed

lemma entry_fused_twice_final:
  "final_annotation entry_fused_twice =
     \<lparr>group = Some ''workstation'', u_class = Some ''web'', os_family = None, os_type = None,
      os_version = None\<rparr>"
proof -
  have pre: "annotations (add_annotation ''hand_annotator'' workstation_any entry_fused_once)
      = [(''mac_annotator'', server_web), (''sni_annotator'', server_web),
         (''hand_annotator'', workstation_any)]"
    "final_annotation (add_annotation ''hand_annotator'' workstation_any entry_fused_once)
      = server_web"
    by (simp_all add: add_annotation_def entry_fused_once_fields)
  have tags: "map group (map snd [(''mac_annotator'', server_web), (''sni_annotator'', server_web),
         (''hand_annotator'', workstation_any)])
        = [Some ''server'', Some ''server'', Some ''workstation'']"
    "map u_class (map snd [(''mac_annotator'', server_web), (''sni_annotator'', server_web),
         (''hand_annotator'', workstation_any)])
        = [Some ''web'', Some ''web'', None]"
    "map os_family (map snd [(''mac_annotator'', server_web), (''sni_annotator'', server_web),
         (''hand_annotator'', workstation_any)])
        = [None, None, None]"
    "map os_type (map snd [(''mac_annotator'', server_web), (''sni_annotator'', server_web),
         (''hand_annotator'', workstation_any)])
        = [None, None, None]"
    "map os_version (map snd [(''mac_annotator'', server_web), (''sni_annotator'', server_web),
         (''hand_annotator'', workstation_any)])
        = [None, None, None]"
    by (simp_all add: server_web_def workstation_any_def)
  have m: "merged_tag [Some ''server'', Some ''server'', Some ''workstation''] 2 = ''''"
    "merged_tag [Some ''web'', Some ''web'', None] 2 = ''web''"
    "merged_tag [None, None, None] 2 = ''''"
    by (simp_all add: merged_tag_def truthy_tags_def truthy_def Counter_def most_common_def
        Let_def)
  have s: "set_annotation tax0 (Str '''') (Str ''web'') (Str '''') (Str '''') (Str '''')
      server_web = server_web"
    by (simp add: set_annotation_def validate_label_def lower_server check_os_def
        check_device_def Let_def)
  have hand: "map_of [(''mac_annotator'', server_web), (''sni_annotator'', server_web),
         (''hand_annotator'', workstation_any)] ''hand_annotator'' = Some workstation_any"
    by simp
  have ov: "override_record workstation_any server_web =
     \<lparr>group = Some ''workstation'', u_class = Some ''web'', os_family = None, os_type = None,
      os_version = None\<rparr>"
    by (simp add: override_record_def override_value_def truthy_def workstation_any_def
        server_web_def)
  show ?thesis
    by (simp only: entry_fused_twice_def perform_final fuse_final pre hand tags m s
        option.case ov)
qed

text \<open>
  C7 as stated fails on an entry reached through the entry's own operations. Two
  annotators say \<open>(server, web)\<close> and the entry is fused; the hand annotator's record
  \<open>(workstation, None)\<close> is added and the entry is fused again. The group no longer
  reaches consensus, \<open>set_annotation\<close> leaves the device half as it was, and the override
  writes the hand group: the final record is \<open>(workstation, web)\<close>, which the device
  taxonomy does not hold. \<open>load\<close> rejects that pair, so the loaded final record is empty.
\<close>

theorem refused_entry_round_trip_counterexample:
  "final_annotation entry_fused_twice =
     \<lparr>group = Some ''workstation'', u_class = Some ''web'', os_family = None, os_type = None,
      os_version = None\<rparr>
   \<and> Annotation_load tax0 (Annotation_export (final_annotation entry_fused_twice))
       = empty_annotation
   \<and> Annotation_load tax0 (Annotation_export (final_annotation entry_fused_twice))
       \<noteq> final_annotation entry_fused_twice
   \<and> IP_load parse0 tax0 (IP_export str0 entry_fused_twice) \<noteq> Inr entry_fused_twice"
proof -
  have l: "Annotation_load tax0 (Annotation_export (final_annotation entry_fused_twice))
       = empty_annotation"
    by (simp add: entry_fused_twice_final Annotation_load_def Annotation_export_def
        Annotation_init_def set_annotation_def validate_label_def label_of_def
        lower_server lower_workstation check_os_def check_device_def tax0_def Let_def)
  have ne: "Annotation_load tax0 (Annotation_export (final_annotation entry_fused_twice))
       \<noteq> final_annotation entry_fused_twice"
    by (simp only: l) (simp add: entry_fused_twice_final empty_annotation_def)
  have "IP_load parse0 tax0 (IP_export str0 entry_fused_twice) = Inr entry_fused_twice
      \<Longrightarrow> Annotation_load tax0 (Annotation_export (final_annotation entry_fused_twice))
           = final_annotation entry_fused_twice"
  proof -
    assume eq: "IP_load parse0 tax0 (IP_export str0 entry_fused_twice) = Inr entry_fused_twice"
    have "\<exists>x. IP_load parse0 tax0 (IP_export str0 entry_fused_twice) = Inr x
        \<and> final_annotation x
            = Annotation_load tax0 (Annotation_export (final_annotation entry_fused_twice))"
      by (simp add: IP_load_def IP_export_def IP_init_def parse0_def str0_def)
    with eq show ?thesis by auto
  qed
  with ne have "IP_load parse0 tax0 (IP_export str0 entry_fused_twice) \<noteq> Inr entry_fused_twice"
    by blast
  with l ne show ?thesis
    by (intro conjI entry_fused_twice_final)
qed

section \<open>The orchestrator\<close>

text \<open>
  C6, at the failing input. Two annotators, the first raising, the second adding a
  candidate to every entry. Without threads the exception of the first leaves
  \<open>process_in_memory\<close> at once: the second annotator never runs (the entry has no
  candidate), nothing is captured in \<open>thread_errors\<close> or logged under the module's name,
  and what is raised is the annotator's own exception, not the aggregate
  \<open>RuntimeError\<close>. With threads, on the same input and under any schedule of the two
  threads, the second annotator's candidate is in the ledger, the failure is logged with
  the module's name and trace, and the \<open>RuntimeError\<close> is raised. In neither mode is an
  entry fused.
\<close>

theorem sequential_mode_failure_not_isolated:
  "process_in_memory False tax0 2 [failing_annotator, working_annotator] [entry0] =
     \<lparr>ledger = [entry0], logged_errors = [],
      exception = Some (Annotator_exception ''Traceback: x failed'')\<rparr>
   \<and> process_in_memory True tax0 2 [failing_annotator, working_annotator] [entry0] =
     \<lparr>ledger = [add_annotation ''y_annotator'' server_web entry0],
      logged_errors = [(''x_annotator'', ''Traceback: x failed'')],
      exception = Some (RuntimeError ''Some modules failed. Exiting annotation process.'')\<rparr>"
  by (simp add: process_in_memory_def failing_annotator_def working_annotator_def)

end
